theory Spec2Isabelle
  imports Complex_Main "HOL-Library.Sublist"
begin

section \<open>Strings and regular expressions used by \<open>src/app/page.tsx\<close>\<close>

text \<open>
  A JavaScript string is modelled as a \<^typ>\<open>string\<close>, one \<^typ>\<open>char\<close> per UTF-16 code
  unit; the model covers the code units below 256. \<open>length\<close> is \<open>String.length\<close>.
\<close>

definition startsWith :: "string \<Rightarrow> string \<Rightarrow> bool" where
  "startsWith s p = prefix p s"

fun includesStr :: "string \<Rightarrow> string \<Rightarrow> bool" where
  "includesStr [] sub = (sub = [])"
| "includesStr (c # cs) sub = (prefix sub (c # cs) \<or> includesStr cs sub)"

text \<open>White space of \<open>String.prototype.trim\<close> and of the class \<open>\s\<close>: tab, line feed,
  vertical tab, form feed, carriage return, space and no-break space.\<close>

definition isWhiteSpace :: "char \<Rightarrow> bool" where
  "isWhiteSpace c = (c \<in> set [CHR 0x09, CHR 0x0A, CHR 0x0B, CHR 0x0C, CHR 0x0D, CHR 0x20, CHR 0xA0])"

definition trim :: "string \<Rightarrow> string" where
  "trim s = rev (dropWhile isWhiteSpace (rev (dropWhile isWhiteSpace s)))"

definition isDigit :: "char \<Rightarrow> bool" where
  "isDigit c = (c \<in> set ''0123456789'')"

text \<open>The class \<open>\w\<close>: letters, digits and the underscore.\<close>

definition isWordChar :: "char \<Rightarrow> bool" where
  "isWordChar c =
     (c \<in> set ''abcdefghijklmnopqrstuvwxyzABCDEFGHIJKLMNOPQRSTUVWXYZ0123456789_'')"

text \<open>
  Matching under the flag \<open>i\<close> compares canonicalised code units. A code unit from 128
  on never canonicalises to an ASCII one, and every pattern below is ASCII, so only the
  ASCII letters need their upper case here.
\<close>

definition canonicalize :: "char \<Rightarrow> char" where
  "canonicalize c =
     (case map_of (zip ''abcdefghijklmnopqrstuvwxyz'' ''ABCDEFGHIJKLMNOPQRSTUVWXYZ'') c of
        Some u \<Rightarrow> u
      | None \<Rightarrow> c)"

text \<open>
  \<open>/^p/i.test(s)\<close> and \<open>/^p$/i.test(s)\<close> for a pattern \<open>p\<close> of literal characters:
  the pattern is matched code unit by code unit from the start of \<open>s\<close>; without the flag
  \<open>m\<close>, \<open>$\<close> matches at the end of \<open>s\<close> only.
\<close>

fun testPrefixI :: "string \<Rightarrow> string \<Rightarrow> bool" where
  "testPrefixI [] s = True"
| "testPrefixI (p # ps) [] = False"
| "testPrefixI (p # ps) (c # cs) =
     (if canonicalize p = canonicalize c then testPrefixI ps cs else False)"

fun testWholeI :: "string \<Rightarrow> string \<Rightarrow> bool" where
  "testWholeI [] s = (s = [])"
| "testWholeI (p # ps) [] = False"
| "testWholeI (p # ps) (c # cs) =
     (if canonicalize p = canonicalize c then testWholeI ps cs else False)"

section \<open>Content items\<close>

text \<open>The elements of \<open>content: { type: 'text' | 'image'; value: string }[]\<close>.\<close>

datatype item_type = Text | Image

datatype item = Item (itype: item_type) (ivalue: string)

section \<open>The noise filter (\<open>content.filter\<close>, lines 550 to 574)\<close>

definition rawTextOf :: "string \<Rightarrow> string" where
  "rawTextOf text = (if startsWith text ''## '' then drop 3 text else text)"

text \<open>The three patterns that are removed anywhere.\<close>

definition isCallToAction :: "string \<Rightarrow> bool" where
  "isCallToAction rawText =
     (testWholeI ''Subscribe'' rawText
      \<or> testPrefixI ''Click to Subscribe'' rawText
      \<or> testPrefixI ''Click to Follow'' rawText)"

text \<open>
  One call of the filter's callback: the flag \<open>foundRealParagraph\<close> before the call, the
  item; the callback's result and the flag after the call.
\<close>

definition filterItem :: "bool \<Rightarrow> item \<Rightarrow> bool \<times> bool" where
  "filterItem foundRealParagraph it =
     (if itype it = Image then (True, foundRealParagraph)
      else
        let rawText = rawTextOf (ivalue it) in
        if isCallToAction rawText then (False, foundRealParagraph)
        else if \<not> foundRealParagraph then
          (if length rawText \<ge> 50 then (True, True)
           else if length rawText < 10 then (False, foundRealParagraph)
           else (True, foundRealParagraph))
        else (True, foundRealParagraph))"

fun filterFrom :: "bool \<Rightarrow> item list \<Rightarrow> item list" where
  "filterFrom found [] = []"
| "filterFrom found (it # rest) =
     (case filterItem found it of
        (keep, found') \<Rightarrow> (if keep then [it] else []) @ filterFrom found' rest)"

text \<open>\<open>let foundRealParagraph = false\<close>, then the filter.\<close>

definition filterContent :: "item list \<Rightarrow> item list" where
  "filterContent content = filterFrom False content"

section \<open>The trailing drop (lines 545 to 548)\<close>

text \<open>\<open>if (content.length > 1) content.splice(-1)\<close>: \<open>splice(-1)\<close> removes the last item.\<close>

definition removeLastLine :: "item list \<Rightarrow> item list" where
  "removeLastLine content = (if length content > 1 then butlast content else content)"

section \<open>The page snapshot read by \<open>scrapeArticle\<close>\<close>

datatype tag = H1 | H2 | H3 | H4 | P | DIV | SPAN | IMG

text \<open>
  What the loop reads of one element of
  \<open>container.querySelectorAll('h1, h2, h3, h4, p, div, span, img')\<close>: its tag, \<open>src\<close>,
  \<open>textContent\<close>, \<open>parseInt(computedStyle.fontWeight)\<close> and
  \<open>parseFloat(computedStyle.fontSize)\<close> (\<open>None\<close> is \<open>NaN\<close>), and whether
  \<open>el.querySelector('p, div, h1, h2, h3, h4')\<close> finds an element.
\<close>

record element =
  tagName :: tag
  src :: string
  textContent :: string
  fontWeight :: "int option"
  fontSize :: "rat option"
  hasBlockChildren :: bool

text \<open>An element of \<open>document.querySelectorAll('a[href*="/"]')\<close>.\<close>

record link =
  href :: string
  linkTextContent :: string

text \<open>
  The page: the links, for each of the four title selectors the \<open>textContent\<close> of the
  element \<open>document.querySelector\<close> finds (\<open>None\<close> when it finds none), and the
  elements of the first container found (\<open>None\<close> when no container selector matches).
\<close>

record page =
  userLinks :: "link list"
  titleElements :: "string option list"
  containerElements :: "element list option"

section \<open>Author and title (lines 391 to 415)\<close>

text \<open>
  \<open>href.match(/x\.com\/\w+$/) && !href.includes('/i/')\<close>: the pattern matches when
  some suffix of \<open>href\<close> is \<open>x.com/\<close> followed by one or more word characters.
\<close>

fun testProfilePath :: "string \<Rightarrow> bool" where
  "testProfilePath [] = False"
| "testProfilePath (c # cs) =
     ((if prefix ''x.com/'' (c # cs)
       then drop 6 (c # cs) \<noteq> [] \<and> list_all isWordChar (drop 6 (c # cs))
       else False)
      \<or> testProfilePath cs)"

definition isProfileHref :: "string \<Rightarrow> bool" where
  "isProfileHref h = (testProfilePath h \<and> \<not> includesStr h ''/i/'')"

text \<open>The loop over the links, on the pair \<open>(authorName, authorHandle)\<close>.\<close>

fun authorLoop :: "string \<times> string \<Rightarrow> link list \<Rightarrow> string \<times> string" where
  "authorLoop (name, handle) [] = (name, handle)"
| "authorLoop (name, handle) (l # ls) =
     (if isProfileHref (href l) then
        let text = trim (linkTextContent l);
            (name', handle') =
              (if startsWith text ''@'' then (name, text)
               else if text \<noteq> [] \<and> name = [] \<and> length text < 50 then (text, handle)
               else (name, handle))
        in if name' \<noteq> [] \<and> handle' \<noteq> [] then (name', handle')
           else authorLoop (name', handle') ls
      else authorLoop (name, handle) ls)"

text \<open>
  \<open>document.querySelector\<close> returns \<open>null\<close> when no element matches, and a property read
  or a method call on \<open>null\<close> raises a \<open>TypeError\<close>, which carries its message. \<open>None\<close> is
  that \<open>null\<close>: \<open>el.textContent\<close> for the result \<open>el\<close> of a title selector, and
  \<open>container.querySelectorAll('h1, h2, h3, h4, p, div, span, img')\<close> for the container.
\<close>

datatype js_error = TypeError string

definition textContentOf :: "string option \<Rightarrow> js_error + string" where
  "textContentOf el =
     (case el of
        None \<Rightarrow> Inl (TypeError ''Cannot read properties of null'')
      | Some tc \<Rightarrow> Inr tc)"

definition querySelectorAllOf :: "'a list option \<Rightarrow> js_error + 'a list" where
  "querySelectorAllOf container =
     (case container of
        None \<Rightarrow> Inl (TypeError ''Cannot read properties of null'')
      | Some allElements \<Rightarrow> Inr allElements)"

text \<open>
  The loop over \<open>titleSelectors\<close>:
  \<open>if (el && el.textContent?.trim()) { title = el.textContent.trim(); break; }\<close>.
\<close>

fun titleLoop :: "string option list \<Rightarrow> js_error + string" where
  "titleLoop [] = Inr []"
| "titleLoop (el # sels) =
     (if el = None then titleLoop sels
      else
        case textContentOf el of
          Inl e \<Rightarrow> Inl e
        | Inr tc \<Rightarrow>
            if trim tc = [] then titleLoop sels
            else (case textContentOf el of
                    Inl e \<Rightarrow> Inl e
                  | Inr tc' \<Rightarrow> Inr (trim tc')))"

section \<open>The classification loop (lines 434 to 543)\<close>

text \<open>\<open>/^@\w+$/\<close>\<close>

definition testHandleOnly :: "string \<Rightarrow> bool" where
  "testHandleOnly s =
     (case s of
        [] \<Rightarrow> False
      | c # w \<Rightarrow> if c = CHR ''@'' then w \<noteq> [] \<and> list_all isWordChar w else False)"

text \<open>
  \<open>/^(Jan|Feb|Mar|Apr|May|Jun|Jul|Aug|Sep|Oct|Nov|Dec)\s+\d+$/\<close>: no digit is white
  space, so the white space matched by \<open>\s+\<close> is the longest run after the month.
\<close>

definition testDateStamp :: "string \<Rightarrow> bool" where
  "testDateStamp s =
     list_ex (\<lambda>m. if prefix m s then
                  (let rest = drop (length m) s;
                       ws = takeWhile isWhiteSpace rest;
                       ds = dropWhile isWhiteSpace rest
                   in ws \<noteq> [] \<and> ds \<noteq> [] \<and> list_all isDigit ds)
                else False)
       [''Jan'', ''Feb'', ''Mar'', ''Apr'', ''May'', ''Jun'',
        ''Jul'', ''Aug'', ''Sep'', ''Oct'', ''Nov'', ''Dec'']"

text \<open>The seventh pattern is the two code units 0xC2, 0xB7, without the flag \<open>i\<close>.\<close>

definition skipPatterns :: "(string \<Rightarrow> bool) list" where
  "skipPatterns =
     [testPrefixI ''To view keyboard'',
      testPrefixI ''View keyboard'',
      testWholeI ''Log in'',
      testWholeI ''Sign up'',
      testHandleOnly,
      testDateStamp,
      (\<lambda>s. s = [CHR 0xC2, CHR 0xB7]),
      testPrefixI ''More from'',
      testWholeI ''Follow'',
      testWholeI ''Repost'',
      testWholeI ''Quote'',
      testWholeI ''Like'',
      testWholeI ''Bookmark'',
      testWholeI ''Share'',
      testWholeI ''Copy link'']"

text \<open>The variables of the loop, and \<open>content\<close>.\<close>

record scrape_state =
  seenTexts :: "string set"
  seenImages :: "string set"
  foundFirstContent :: bool
  reachedFooter :: bool
  headerImageCount :: nat
  skippedAfterTitle :: nat
  content :: "item list"

definition initialState :: scrape_state where
  "initialState =
     \<lparr>seenTexts = {}, seenImages = {}, foundFirstContent = False, reachedFooter = False,
      headerImageCount = 0, skippedAfterTitle = 0, content = []\<rparr>"

text \<open>The condition of lines 471 to 477.\<close>

definition imageQualifies :: "string set \<Rightarrow> string \<Rightarrow> bool" where
  "imageQualifies seen s =
     (s \<noteq> []
      \<and> \<not> includesStr s ''profile_images''
      \<and> \<not> includesStr s ''emoji''
      \<and> \<not> includesStr s ''icon''
      \<and> \<not> includesStr s ''svg''
      \<and> s \<notin> seen
      \<and> (includesStr s ''pbs.twimg.com'' \<or> includesStr s ''ton.twimg.com''))"

text \<open>The branch \<open>tagName === 'IMG'\<close>, which always ends in \<open>continue\<close>.\<close>

definition handleImage :: "scrape_state \<Rightarrow> string \<Rightarrow> scrape_state" where
  "handleImage st s =
     (if imageQualifies (seenImages st) s then
        let st1 = st\<lparr>seenImages := insert s (seenImages st)\<rparr> in
        if \<not> foundFirstContent st1 then
          let st2 = st1\<lparr>headerImageCount := headerImageCount st1 + 1\<rparr> in
          if headerImageCount st2 = 1 then st2\<lparr>content := content st2 @ [Item Image s]\<rparr>
          else st2
        else st1\<lparr>content := content st1 @ [Item Image s]\<rparr>
      else st)"

definition isHeadingTag :: "tag \<Rightarrow> bool" where
  "isHeadingTag t = (t = H1 \<or> t = H2 \<or> t = H3 \<or> t = H4)"

text \<open>\<open>x || d\<close> on a number: \<open>NaN\<close> and \<open>0\<close> are falsy.\<close>

definition orDefault :: "'a::zero option \<Rightarrow> 'a \<Rightarrow> 'a" where
  "orDefault x d = (case x of None \<Rightarrow> d | Some v \<Rightarrow> if v = 0 then d else v)"

definition isStyledAsHeading :: "element \<Rightarrow> string \<Rightarrow> bool" where
  "isStyledAsHeading el text =
     (orDefault (fontWeight el) 400 \<ge> 600 \<and> orDefault (fontSize el) 16 \<ge> 20
      \<and> length text < 150)"

text \<open>
  Lines 514 to 530, on whether the node is a heading: the state afterwards, and whether
  the iteration ends there (\<open>continue\<close>).
\<close>

definition leadIn :: "scrape_state \<Rightarrow> string \<Rightarrow> bool \<Rightarrow> bool \<times> scrape_state" where
  "leadIn st text heading =
     (if \<not> foundFirstContent st then
        if length text > 40 then
          (False, st\<lparr>foundFirstContent := True, skippedAfterTitle := 0\<rparr>)
        else if heading then
          (False, st\<lparr>foundFirstContent := True, skippedAfterTitle := 0\<rparr>)
        else
          let st1 = st\<lparr>skippedAfterTitle := skippedAfterTitle st + 1\<rparr> in
          (skippedAfterTitle st1 \<le> 6, st1)
      else (False, st))"

text \<open>The four tests of lines 496 to 499, each of which ends the iteration (\<open>continue\<close>).\<close>

definition skipText :: "string \<Rightarrow> string \<Rightarrow> string \<Rightarrow> string set \<Rightarrow> string \<Rightarrow> bool" where
  "skipText name handle ttl seen text =
     ((text = [] \<or> length text < 3)
      \<or> text \<in> seen
      \<or> list_ex (\<lambda>p. p text) skipPatterns
      \<or> (text = name \<or> text = handle \<or> text = ttl))"

text \<open>
  The rest of the loop body, for an element that is not an image. The footer branch sets
  \<open>reachedFooter\<close> and leaves the loop.
\<close>

definition handleText ::
  "string \<Rightarrow> string \<Rightarrow> string \<Rightarrow> scrape_state \<Rightarrow> element \<Rightarrow> scrape_state" where
  "handleText name handle ttl st el =
     (let text = trim (textContent el) in
      if skipText name handle ttl (seenTexts st) text then st
      else if startsWith text ''More from'' \<or> (foundFirstContent st \<and> text = name) then
        st\<lparr>reachedFooter := True\<rparr>
      else
        let heading = (isHeadingTag (tagName el) \<or> isStyledAsHeading el text) in
        case leadIn st text heading of
          (skip, st1) \<Rightarrow>
            if skip then st1
            else if hasBlockChildren el \<and> tagName el = DIV then st1
            else
              let st2 = st1\<lparr>seenTexts := insert text (seenTexts st1)\<rparr> in
              st2\<lparr>content := content st2 @ [Item Text (if heading then ''## '' @ text else text)]\<rparr>)"

definition scrapeElement ::
  "string \<Rightarrow> string \<Rightarrow> string \<Rightarrow> scrape_state \<Rightarrow> element \<Rightarrow> scrape_state" where
  "scrapeElement name handle ttl st el =
     (if tagName el = IMG then handleImage st (src el) else handleText name handle ttl st el)"

text \<open>
  \<open>for (const el of Array.from(allElements))\<close>: the test of \<open>reachedFooter\<close> at the head
  of the body, and the \<open>break\<close> of the footer branch, which is taken exactly when the
  body has set \<open>reachedFooter\<close>.
\<close>

fun scrapeLoop ::
  "string \<Rightarrow> string \<Rightarrow> string \<Rightarrow> scrape_state \<Rightarrow> element list \<Rightarrow> scrape_state" where
  "scrapeLoop name handle ttl st [] = st"
| "scrapeLoop name handle ttl st (el # els) =
     (if reachedFooter st then st
      else
        let st' = scrapeElement name handle ttl st el in
        if reachedFooter st' then st' else scrapeLoop name handle ttl st' els)"

section \<open>The extraction and its caller\<close>

text \<open>
  The fields of \<open>ArticleData\<close> that the classification decides; \<open>authorAvatar\<close>, \<open>date\<close>
  and \<open>debug\<close> are read from the document apart from it.
\<close>

record article_data =
  title :: string
  authorName :: string
  authorHandle :: string
  articleContent :: "item list"

text \<open>The content of a container: the loop, the trailing drop, the filter.\<close>

definition classifyContent :: "string \<Rightarrow> string \<Rightarrow> string \<Rightarrow> element list \<Rightarrow> item list" where
  "classifyContent name handle ttl els =
     filterContent (removeLastLine (content (scrapeLoop name handle ttl initialState els)))"

text \<open>
  The block of lines 391 to 575: the author, the title, then \<open>if (container) { ... }\<close>
  around the loop, the trailing drop and the filter. An error raised on the way ends it.
\<close>

definition scrapeArticle :: "page \<Rightarrow> js_error + article_data" where
  "scrapeArticle pg =
     (case authorLoop ([], []) (userLinks pg) of
        (name, handle) \<Rightarrow>
          (case titleLoop (titleElements pg) of
             Inl e \<Rightarrow> Inl e
           | Inr ttl \<Rightarrow>
               if containerElements pg \<noteq> None then
                 (case querySelectorAllOf (containerElements pg) of
                    Inl e \<Rightarrow> Inl e
                  | Inr allElements \<Rightarrow>
                      Inr \<lparr>title = ttl, authorName = name, authorHandle = handle,
                           articleContent = classifyContent name handle ttl allElements\<rparr>)
               else
                 Inr \<lparr>title = ttl, authorName = name, authorHandle = handle,
                      articleContent = []\<rparr>))"

text \<open>
  The article branch of \<open>POST\<close> after \<open>scrapeArticle\<close> has returned (lines 834 to 841):
  a JSON error with its status, or the data handed to \<open>generateArticleHTML\<close>.
\<close>

datatype response = JsonError nat string | RenderArticle article_data

definition respondArticle :: "article_data \<Rightarrow> response" where
  "respondArticle articleData =
     (if title articleData = [] \<and> length (articleContent articleData) = 0 then
        JsonError 400
          ''Could not extract article content. The article may be private or deleted.''
      else RenderArticle articleData)"

text \<open>
  \<open>const articleData = await scrapeArticle(...)\<close> inside the \<open>try\<close> of \<open>POST\<close>: an error
  of \<open>scrapeArticle\<close> reaches the \<open>catch\<close> of lines 875 to 881, which answers with the
  status 500 and the error's message.
\<close>

definition postArticle :: "page \<Rightarrow> response" where
  "postArticle pg =
     (case scrapeArticle pg of
        Inl (TypeError errorMessage) \<Rightarrow>
          JsonError 500 (''Failed to convert to PDF: '' @ errorMessage)
      | Inr articleData \<Rightarrow> respondArticle articleData)"

section \<open>Elements for the examples\<close>

text \<open>
  A paragraph and a second-level heading with the text given, as the browser computes
  their style (weight 400 at 16px, weight 700 at 24px), an image with the source given,
  and a \<open>div\<close> that wraps block elements, with the text of all it contains.
\<close>

definition pElement :: "string \<Rightarrow> element" where
  "pElement t =
     \<lparr>tagName = P, src = [], textContent = t,
      fontWeight = Some 400, fontSize = Some 16, hasBlockChildren = False\<rparr>"

definition h2Element :: "string \<Rightarrow> element" where
  "h2Element t =
     \<lparr>tagName = H2, src = [], textContent = t,
      fontWeight = Some 700, fontSize = Some 24, hasBlockChildren = False\<rparr>"

definition imgElement :: "string \<Rightarrow> element" where
  "imgElement s =
     \<lparr>tagName = IMG, src = s, textContent = [],
      fontWeight = None, fontSize = None, hasBlockChildren = False\<rparr>"

definition wrapperDiv :: "string \<Rightarrow> element" where
  "wrapperDiv t =
     \<lparr>tagName = DIV, src = [], textContent = t,
      fontWeight = Some 400, fontSize = Some 16, hasBlockChildren = True\<rparr>"

section \<open>Evaluating the regular expressions\<close>

text \<open>
  The upper case of a code unit, on its bits: a lower-case ASCII letter is \<open>0x60 + k\<close>
  with \<open>1 \<le> k \<le> 26\<close>, and its upper case clears the bit of value 32.
\<close>

lemma canonicalize_Char:
  "canonicalize (Char b0 b1 b2 b3 b4 b5 b6 b7) =
     (if \<not> b7 \<and> b6 \<and> b5 \<and> (b0 \<or> b1 \<or> b2 \<or> b3 \<or> b4) \<and> \<not> (b4 \<and> b3 \<and> (b2 \<or> (b1 \<and> b0)))
      then Char b0 b1 b2 b3 b4 False b6 b7 else Char b0 b1 b2 b3 b4 b5 b6 b7)"
  by (cases b0; cases b1; cases b2; cases b3; cases b4; cases b5; cases b6; cases b7;
      simp add: canonicalize_def)

lemma prefix_testPrefixI: "prefix p s \<Longrightarrow> testPrefixI p s"
proof (induction p arbitrary: s)
  case Nil
  show ?case by simp
next
  case (Cons a p)
  then obtain s' where "s = a # s'" and "prefix p s'"
    by (cases s) auto
  with Cons.IH show ?case by simp
qed

section \<open>The noise filter\<close>

lemma filterItem_cta:
  "itype it = Text \<Longrightarrow> isCallToAction (rawTextOf (ivalue it)) \<Longrightarrow>
     filterItem found it = (False, found)"
  by (simp add: filterItem_def)

lemma filterItem_passthrough:
  "filterItem True it = (itype it = Image \<or> \<not> isCallToAction (rawTextOf (ivalue it)), True)"
  by (simp add: filterItem_def Let_def)

lemma filterFrom_True:
  "filterFrom True items =
     filter (\<lambda>i. itype i = Image \<or> \<not> isCallToAction (rawTextOf (ivalue i))) items"
  by (induction items) (simp_all add: filterItem_passthrough)

lemma filterFrom_drop_cta:
  "isCallToAction (rawTextOf t) \<Longrightarrow>
     filterFrom found (xs @ Item Text t # ys) = filterFrom found (xs @ ys)"
proof (induction xs arbitrary: found)
  case Nil
  then show ?case by (simp add: filterItem_cta)
next
  case (Cons x xs)
  then show ?case by (simp split: prod.splits)
qed

lemma length_rawTextOf: "length (rawTextOf t) \<le> length t \<and> length t \<le> length (rawTextOf t) + 3"
  by (auto simp: rawTextOf_def)

text \<open>
  C3. The filter starts with the flag false. While it is false, a text item that is no
  call to action and has 50 or more characters is kept and sets the flag; one of fewer
  than 10 characters is dropped and one of 10 to 49 characters is kept, both leaving the
  flag false. Once the flag is true the filter only removes the calls to action, whatever
  the lengths.
\<close>

theorem noise_filter_flag_semantics:
  "filterContent items = filterFrom False items
   \<and> (itype a = Text \<and> \<not> isCallToAction (rawTextOf (ivalue a))
        \<and> length (rawTextOf (ivalue a)) \<ge> 50
        \<longrightarrow> filterFrom False (a # rest) = a # filterFrom True rest)
   \<and> (itype b = Text \<and> length (rawTextOf (ivalue b)) < 10
        \<longrightarrow> filterFrom False (b # rest) = filterFrom False rest)
   \<and> (itype c = Text \<and> \<not> isCallToAction (rawTextOf (ivalue c))
        \<and> 10 \<le> length (rawTextOf (ivalue c)) \<and> length (rawTextOf (ivalue c)) < 50
        \<longrightarrow> filterFrom False (c # rest) = c # filterFrom False rest)
   \<and> filterFrom True items =
        filter (\<lambda>i. itype i = Image \<or> \<not> isCallToAction (rawTextOf (ivalue i))) items"
proof -
  have flag: "filterContent items = filterFrom False items"
    by (simp add: filterContent_def)
  have long: "filterFrom False (a # rest) = a # filterFrom True rest"
    if "itype a = Text" "\<not> isCallToAction (rawTextOf (ivalue a))"
      "length (rawTextOf (ivalue a)) \<ge> 50"
    using that by (simp add: filterItem_def Let_def)
  have short: "filterFrom False (b # rest) = filterFrom False rest"
    if "itype b = Text" "length (rawTextOf (ivalue b)) < 10"
    using that by (simp add: filterItem_def Let_def)
  have middle: "filterFrom False (c # rest) = c # filterFrom False rest"
    if "itype c = Text" "\<not> isCallToAction (rawTextOf (ivalue c))"
      "10 \<le> length (rawTextOf (ivalue c))" "length (rawTextOf (ivalue c)) < 50"
    using that by (simp add: filterItem_def Let_def)
  from flag long short middle filterFrom_True show ?thesis by blast
qed

theorem noise_filter_flag_semantics_witness:
  "filterContent [Item Text ''Subscribe'', Item Text ''ok'']
     = filterFrom False [Item Text ''Subscribe'', Item Text ''ok'']
   \<and> (itype (Item Text ''A paragraph of the article body with fifty or more characters.'') = Text
      \<and> \<not> isCallToAction
           (rawTextOf ''A paragraph of the article body with fifty or more characters.'')
      \<and> length (rawTextOf ''A paragraph of the article body with fifty or more characters.'')
           \<ge> 50)
   \<and> filterFrom False
        [Item Text ''A paragraph of the article body with fifty or more characters.'',
         Item Text ''ok'']
      = Item Text ''A paragraph of the article body with fifty or more characters.''
          # filterFrom True [Item Text ''ok'']
   \<and> (itype (Item Text ''## 1.'') = Text \<and> length (rawTextOf ''## 1.'') < 10)
   \<and> filterFrom False [Item Text ''## 1.'', Item Text ''ok''] = filterFrom False [Item Text ''ok'']
   \<and> (itype (Item Text ''A short opening line'') = Text
      \<and> \<not> isCallToAction (rawTextOf ''A short opening line'')
      \<and> 10 \<le> length (rawTextOf ''A short opening line'')
      \<and> length (rawTextOf ''A short opening line'') < 50)
   \<and> filterFrom False [Item Text ''A short opening line'', Item Text ''ok'']
      = Item Text ''A short opening line'' # filterFrom False [Item Text ''ok'']
   \<and> filterFrom True [Item Text ''Subscribe'', Item Text ''ok''] = [Item Text ''ok'']"
  using noise_filter_flag_semantics
    [of "[Item Text ''Subscribe'', Item Text ''ok'']"
        "Item Text ''A paragraph of the article body with fifty or more characters.''"
        "[Item Text ''ok'']" "Item Text ''## 1.''" "Item Text ''A short opening line''"]
  by (simp add: rawTextOf_def isCallToAction_def startsWith_def canonicalize_Char)

text \<open>
  C8. A text item matching one of the call-to-action patterns, \<open>Subscribe\<close> among them,
  is removed by the filter wherever it stands and whatever the flag is: the filter gives
  what it gives on the sequence without the item. Alone, it leaves the empty sequence.
\<close>

theorem cta_removed_anywhere:
  "filterFrom found (xs @ Item Text ''Subscribe'' # ys) = filterFrom found (xs @ ys)
   \<and> filterContent [Item Text ''Subscribe''] = []
   \<and> (isCallToAction (rawTextOf t) \<longrightarrow>
        filterFrom found (xs @ Item Text t # ys) = filterFrom found (xs @ ys)
        \<and> filterContent [Item Text t] = [])"
proof -
  have sub: "isCallToAction (rawTextOf ''Subscribe'')"
    by (simp add: rawTextOf_def isCallToAction_def startsWith_def canonicalize_Char)
  have alone: "filterContent [Item Text u] = []" if "isCallToAction (rawTextOf u)" for u
    using filterFrom_drop_cta [OF that, of False "[]" "[]"] by (simp add: filterContent_def)
  from sub alone filterFrom_drop_cta show ?thesis by blast
qed

theorem cta_removed_anywhere_witness:
  "isCallToAction (rawTextOf ''click to follow @someone'')
   \<and> filterFrom True ([Item Image ''a''] @ Item Text ''click to follow @someone'' # [Item Text ''b''])
       = filterFrom True ([Item Image ''a''] @ [Item Text ''b''])
   \<and> filterContent [Item Text ''click to follow @someone''] = []"
proof -
  have cta: "isCallToAction (rawTextOf ''click to follow @someone'')"
    by (simp add: rawTextOf_def isCallToAction_def startsWith_def canonicalize_Char)
  with cta_removed_anywhere
    [of True "[Item Image ''a'']" "[Item Text ''b'']" "''click to follow @someone''"]
  show ?thesis by blast
qed

text \<open>
  C2, as the code has it. Three text items of 5, 60 and 8 characters, none a call to
  action: the first is dropped, the second sets the flag and is kept, and the third,
  coming after the flag is set, is kept too.
\<close>

theorem length_gate_5_60_8:
  assumes "length a = 5" and "length b = 60" and "length c = 8"
    and "\<not> isCallToAction (rawTextOf a)" and "\<not> isCallToAction (rawTextOf b)"
    and "\<not> isCallToAction (rawTextOf c)"
  shows "filterContent [Item Text a, Item Text b, Item Text c] = [Item Text b, Item Text c]"
proof -
  from assms(1) length_rawTextOf [of a] have a: "length (rawTextOf a) < 10" by simp
  from assms(2) length_rawTextOf [of b] have b: "length (rawTextOf b) \<ge> 50" by simp
  have "filterFrom False [Item Text a, Item Text b, Item Text c]
          = filterFrom False [Item Text b, Item Text c]"
    using a by (simp add: filterItem_def Let_def)
  also have "\<dots> = Item Text b # filterFrom True [Item Text c]"
    using b assms(5) by (simp add: filterItem_def Let_def)
  also have "\<dots> = [Item Text b, Item Text c]"
    using assms(6) by (simp add: filterItem_passthrough)
  finally show ?thesis by (simp add: filterContent_def)
qed

theorem length_gate_5_60_8_witness:
  "length ''Intro'' = 5
   \<and> length ''A paragraph of the article body that has exactly sixty chars'' = 60
   \<and> length ''The end.'' = 8
   \<and> \<not> isCallToAction (rawTextOf ''Intro'')
   \<and> \<not> isCallToAction
        (rawTextOf ''A paragraph of the article body that has exactly sixty chars'')
   \<and> \<not> isCallToAction (rawTextOf ''The end.'')
   \<and> filterContent
        [Item Text ''Intro'',
         Item Text ''A paragraph of the article body that has exactly sixty chars'',
         Item Text ''The end.'']
      = [Item Text ''A paragraph of the article body that has exactly sixty chars'',
         Item Text ''The end.'']"
proof -
  have h: "length ''Intro'' = 5"
    "length ''A paragraph of the article body that has exactly sixty chars'' = 60"
    "length ''The end.'' = 8"
    "\<not> isCallToAction (rawTextOf ''Intro'')"
    "\<not> isCallToAction
        (rawTextOf ''A paragraph of the article body that has exactly sixty chars'')"
    "\<not> isCallToAction (rawTextOf ''The end.'')"
    by (simp_all add: rawTextOf_def isCallToAction_def startsWith_def canonicalize_Char)
  from h length_gate_5_60_8 [OF h] show ?thesis by blast
qed

text \<open>
  The claim C2 as it is stated fails: on items of 5, 60 and 8 characters the filter does
  not return the 60-character item alone.
\<close>

theorem length_gate_counterexample:
  "length ''Intro'' = 5
   \<and> length ''A paragraph of the article body that has exactly sixty chars'' = 60
   \<and> length ''The end.'' = 8
   \<and> \<not> isCallToAction (rawTextOf ''Intro'')
   \<and> \<not> isCallToAction
        (rawTextOf ''A paragraph of the article body that has exactly sixty chars'')
   \<and> \<not> isCallToAction (rawTextOf ''The end.'')
   \<and> filterContent
        [Item Text ''Intro'',
         Item Text ''A paragraph of the article body that has exactly sixty chars'',
         Item Text ''The end.'']
      \<noteq> [Item Text ''A paragraph of the article body that has exactly sixty chars'']"
  by (simp add: filterContent_def filterItem_def rawTextOf_def isCallToAction_def
      startsWith_def canonicalize_Char)

section \<open>The classification loop\<close>

text \<open>
  A text that passes the four tests of lines 496 to 499 never takes the footer branch:
  the pattern \<open>/^More from/i\<close> of \<open>skipPatterns\<close> and the comparison with
  \<open>authorName\<close> have ended the iteration before.
\<close>

lemma imageQualifies_seen: "imageQualifies seen s = (imageQualifies {} s \<and> s \<notin> seen)"
  by (auto simp: imageQualifies_def)

lemma skipText_footer:
  assumes "\<not> skipText name handle ttl seen text"
  shows "\<not> startsWith text ''More from''" and "text \<noteq> name"
proof -
  have "list_ex (\<lambda>p. p text) skipPatterns" if "startsWith text ''More from''"
  proof -
    from that have "testPrefixI ''More from'' text"
      by (simp add: startsWith_def prefix_testPrefixI)
    moreover have "testPrefixI ''More from'' \<in> set skipPatterns"
      by (simp add: skipPatterns_def)
    ultimately show ?thesis unfolding list_ex_iff by blast
  qed
  with assms show "\<not> startsWith text ''More from''" by (auto simp: skipText_def)
  from assms show "text \<noteq> name" by (auto simp: skipText_def)
qed

lemma handleText_skipped:
  "skipText name handle ttl (seenTexts st) (trim (textContent el)) \<Longrightarrow>
     handleText name handle ttl st el = st"
  by (simp add: handleText_def)

lemma handleText_unskipped:
  assumes "\<not> skipText name handle ttl (seenTexts st) (trim (textContent el))"
    and "leadIn st (trim (textContent el))
           (isHeadingTag (tagName el) \<or> isStyledAsHeading el (trim (textContent el)))
         = (skip, st1)"
  shows "handleText name handle ttl st el =
     (if skip \<or> (hasBlockChildren el \<and> tagName el = DIV) then st1
      else st1\<lparr>seenTexts := insert (trim (textContent el)) (seenTexts st1),
               content := content st1 @
                 [Item Text
                    (if isHeadingTag (tagName el) \<or> isStyledAsHeading el (trim (textContent el))
                     then ''## '' @ trim (textContent el) else trim (textContent el))]\<rparr>)"
  using assms skipText_footer [OF assms(1)]
  by (simp add: handleText_def Let_def)

lemma reachedFooter_leadIn: "reachedFooter (snd (leadIn st text heading)) = reachedFooter st"
  by (simp add: leadIn_def Let_def)

lemma reachedFooter_handleText: "reachedFooter (handleText name handle ttl st el) = reachedFooter st"
proof (cases "skipText name handle ttl (seenTexts st) (trim (textContent el))")
  case True
  then show ?thesis by (simp add: handleText_skipped)
next
  case False
  obtain skip st1 where l: "leadIn st (trim (textContent el))
           (isHeadingTag (tagName el) \<or> isStyledAsHeading el (trim (textContent el)))
         = (skip, st1)"
    by (cases "leadIn st (trim (textContent el))
           (isHeadingTag (tagName el) \<or> isStyledAsHeading el (trim (textContent el)))")
  from reachedFooter_leadIn [of st "trim (textContent el)"
      "isHeadingTag (tagName el) \<or> isStyledAsHeading el (trim (textContent el))"] l
  have "reachedFooter st1 = reachedFooter st" by simp
  then show ?thesis
    by (simp add: handleText_unskipped [OF False l])
qed

lemma reachedFooter_handleImage: "reachedFooter (handleImage st s) = reachedFooter st"
  by (simp add: handleImage_def Let_def)

lemma reachedFooter_scrapeElement:
  "reachedFooter (scrapeElement name handle ttl st el) = reachedFooter st"
  by (simp add: scrapeElement_def reachedFooter_handleText reachedFooter_handleImage)

lemma scrapeLoop_Cons:
  "\<not> reachedFooter st \<Longrightarrow>
     scrapeLoop name handle ttl st (el # els)
       = scrapeLoop name handle ttl (scrapeElement name handle ttl st el) els"
  by (cases els) (simp_all add: Let_def reachedFooter_scrapeElement)

lemma reachedFooter_scrapeLoop:
  "reachedFooter (scrapeLoop name handle ttl st els) = reachedFooter st"
proof (induction els arbitrary: st)
  case Nil
  show ?case by simp
next
  case (Cons el els)
  show ?case
  proof (cases "reachedFooter st")
    case True
    then show ?thesis by simp
  next
    case False
    then show ?thesis
      by (simp add: scrapeLoop_Cons Cons.IH reachedFooter_scrapeElement del: scrapeLoop.simps)
  qed
qed

lemma scrapeLoop_append:
  "\<not> reachedFooter st \<Longrightarrow>
     scrapeLoop name handle ttl st (xs @ ys)
       = scrapeLoop name handle ttl (scrapeLoop name handle ttl st xs) ys"
proof (induction xs arbitrary: st)
  case Nil
  show ?case by simp
next
  case (Cons x xs)
  from Cons.prems have "\<not> reachedFooter (scrapeElement name handle ttl st x)"
    by (simp add: reachedFooter_scrapeElement)
  with Cons.prems Cons.IH show ?case
    by (simp add: scrapeLoop_Cons del: scrapeLoop.simps)
qed

section \<open>The loop on concrete pages\<close>

lemmas eval_text = pElement_def h2Element_def imgElement_def wrapperDiv_def
  scrapeElement_def handleText_def skipText_def skipPatterns_def
  trim_def isWhiteSpace_def canonicalize_Char testHandleOnly_def testDateStamp_def
  startsWith_def leadIn_def isHeadingTag_def isStyledAsHeading_def orDefault_def Let_def

text \<open>
  C1, on the code. The footer branch is not reached: a node whose text starts with
  \<open>More from\<close> and a node that repeats the author name after content has started are
  passed over by the tests before it, the loop goes on, and the elements after them reach
  the output (the last one falls to the trailing drop).
\<close>

theorem footer_halt_failing_input:
  "classifyContent ''Real Author'' ''@real'' ''My Title''
     [h2Element ''Introduction'',
      pElement ''More from Real Author'',
      pElement ''Second part'',
      pElement ''Real Author'',
      pElement ''Third part'',
      pElement ''Terms of Service'']
   = [Item Text ''## Introduction'', Item Text ''Second part'', Item Text ''Third part'']"
  by (simp add: classifyContent_def initialState_def eval_text removeLastLine_def
      filterContent_def filterItem_def rawTextOf_def isCallToAction_def)

section \<open>The author\<close>

text \<open>
  C6, on the code. The assignment of \<open>authorHandle\<close> has no test of \<open>!authorHandle\<close>, as
  the one of \<open>authorName\<close> has: while no name has been found, a later link starting with
  \<open>@\<close> replaces the handle, so the handle returned is not that of the first such link.
\<close>

theorem author_handle_failing_input:
  "isProfileHref ''https://x.com/alice''
   \<and> isProfileHref ''https://x.com/bob''
   \<and> authorLoop ([], [])
        [\<lparr>href = ''https://x.com/alice'', linkTextContent = ''@alice''\<rparr>,
         \<lparr>href = ''https://x.com/bob'', linkTextContent = ''@bob''\<rparr>,
         \<lparr>href = ''https://x.com/alice'', linkTextContent = ''Alice''\<rparr>]
       = (''Alice'', ''@bob'')"
  by (simp add: isProfileHref_def isWordChar_def trim_def isWhiteSpace_def startsWith_def)

section \<open>Images and the set of seen sources\<close>

lemma leadIn_keeps:
  "seenImages (snd (leadIn st text heading)) = seenImages st"
  "seenTexts (snd (leadIn st text heading)) = seenTexts st"
  "content (snd (leadIn st text heading)) = content st"
  "headerImageCount (snd (leadIn st text heading)) = headerImageCount st"
  by (simp_all add: leadIn_def Let_def)

lemma handleText_images:
  "seenImages (handleText name handle ttl st el) = seenImages st
   \<and> headerImageCount (handleText name handle ttl st el) = headerImageCount st
   \<and> (content (handleText name handle ttl st el) = content st
      \<or> (\<exists>v. content (handleText name handle ttl st el) = content st @ [Item Text v]))"
proof (cases "skipText name handle ttl (seenTexts st) (trim (textContent el))")
  case True
  then show ?thesis by (simp add: handleText_skipped)
next
  case False
  obtain skip st1 where l: "leadIn st (trim (textContent el))
           (isHeadingTag (tagName el) \<or> isStyledAsHeading el (trim (textContent el)))
         = (skip, st1)"
    by (cases "leadIn st (trim (textContent el))
           (isHeadingTag (tagName el) \<or> isStyledAsHeading el (trim (textContent el)))")
  from leadIn_keeps [of st "trim (textContent el)"
      "isHeadingTag (tagName el) \<or> isStyledAsHeading el (trim (textContent el))"] l
  have "seenImages st1 = seenImages st" "content st1 = content st"
    "headerImageCount st1 = headerImageCount st"
    by simp_all
  then show ?thesis
    by (simp add: handleText_unskipped [OF False l])
qed

lemma handleImage_unqualified:
  "\<not> imageQualifies (seenImages st) s \<Longrightarrow> handleImage st s = st"
  by (simp add: handleImage_def)

lemma handleImage_qualified:
  assumes "imageQualifies (seenImages st) s"
  shows "seenImages (handleImage st s) = insert s (seenImages st)"
    and "content (handleImage st s)
          = content st @ (if foundFirstContent st \<or> headerImageCount st = 0
                          then [Item Image s] else [])"
    and "foundFirstContent (handleImage st s) = foundFirstContent st"
    and "headerImageCount (handleImage st s)
          = (if foundFirstContent st then headerImageCount st else headerImageCount st + 1)"
    and "seenTexts (handleImage st s) = seenTexts st"
    and "skippedAfterTitle (handleImage st s) = skippedAfterTitle st"
  using assms by (simp_all add: handleImage_def Let_def)

lemma seenImages_scrapeElement:
  "s \<in> seenImages st \<Longrightarrow> s \<in> seenImages (scrapeElement name handle ttl st el)"
proof (cases "tagName el = IMG")
  case True
  assume "s \<in> seenImages st"
  then show ?thesis
    using True handleImage_qualified(1) [of st "src el"] handleImage_unqualified [of st "src el"]
    by (cases "imageQualifies (seenImages st) (src el)") (simp_all add: scrapeElement_def)
next
  case False
  assume "s \<in> seenImages st"
  then show ?thesis
    using False handleText_images [of name handle ttl st el] by (simp add: scrapeElement_def)
qed

lemma seen_image_not_emitted_step:
  assumes "s \<in> seenImages st"
  shows "(Item Image s \<in> set (content (scrapeElement name handle ttl st el)))
           = (Item Image s \<in> set (content st))"
proof (cases "tagName el = IMG")
  case True
  show ?thesis
  proof (cases "imageQualifies (seenImages st) (src el)")
    case q: True
    with assms have "src el \<noteq> s" by (auto simp: imageQualifies_def)
    with True show ?thesis
      by (simp add: scrapeElement_def handleImage_qualified(2) [OF q])
  next
    case False
    with True show ?thesis by (simp add: scrapeElement_def handleImage_unqualified)
  qed
next
  case False
  with handleText_images [of name handle ttl st el] show ?thesis
    by (auto simp: scrapeElement_def)
qed

lemma seen_image_not_emitted:
  "s \<in> seenImages st \<Longrightarrow>
     (Item Image s \<in> set (content (scrapeLoop name handle ttl st els)))
       = (Item Image s \<in> set (content st))"
proof (induction els arbitrary: st)
  case Nil
  show ?case by simp
next
  case (Cons el els)
  show ?case
  proof (cases "reachedFooter st")
    case True
    then show ?thesis by simp
  next
    case False
    from Cons.prems have "s \<in> seenImages (scrapeElement name handle ttl st el)"
      by (rule seenImages_scrapeElement)
    from Cons.IH [OF this] seen_image_not_emitted_step [OF Cons.prems] False show ?thesis
      by (simp add: scrapeLoop_Cons del: scrapeLoop.simps)
  qed
qed

text \<open>The invariant of the loop: the image items of \<open>content\<close> are distinct and their
  sources are in \<open>seenImages\<close>.\<close>

lemma images_invariant_step:
  assumes "distinct (filter (\<lambda>i. itype i = Image) (content st))"
    and "\<forall>s. Item Image s \<in> set (content st) \<longrightarrow> s \<in> seenImages st"
  shows "distinct (filter (\<lambda>i. itype i = Image) (content (scrapeElement name handle ttl st el)))
     \<and> (\<forall>s. Item Image s \<in> set (content (scrapeElement name handle ttl st el))
            \<longrightarrow> s \<in> seenImages (scrapeElement name handle ttl st el))"
proof (cases "tagName el = IMG")
  case True
  show ?thesis
  proof (cases "imageQualifies (seenImages st) (src el)")
    case q: True
    then have "src el \<notin> seenImages st" by (simp add: imageQualifies_def)
    with assms(2) have "Item Image (src el) \<notin> set (content st)" by blast
    with assms True show ?thesis
      by (auto simp: scrapeElement_def handleImage_qualified(1,2) [OF q])
  next
    case False
    with assms True show ?thesis by (simp add: scrapeElement_def handleImage_unqualified)
  qed
next
  case False
  with assms handleText_images [of name handle ttl st el] show ?thesis
    by (auto simp: scrapeElement_def)
qed

lemma images_invariant:
  "distinct (filter (\<lambda>i. itype i = Image) (content st)) \<Longrightarrow>
   \<forall>s. Item Image s \<in> set (content st) \<longrightarrow> s \<in> seenImages st \<Longrightarrow>
     distinct (filter (\<lambda>i. itype i = Image) (content (scrapeLoop name handle ttl st els)))"
proof (induction els arbitrary: st)
  case Nil
  then show ?case by simp
next
  case (Cons el els)
  show ?case
  proof (cases "reachedFooter st")
    case True
    with Cons.prems show ?thesis by simp
  next
    case False
    from images_invariant_step [OF Cons.prems, of name handle ttl el] Cons.IH False
    show ?thesis by (simp add: scrapeLoop_Cons del: scrapeLoop.simps)
  qed
qed

lemma set_filterFrom: "set (filterFrom found items) \<subseteq> set items"
  by (induction items arbitrary: found) (auto split: prod.splits)

lemma distinct_filterFrom:
  "distinct (filter keepIf items) \<Longrightarrow> distinct (filter keepIf (filterFrom found items))"
proof (induction items arbitrary: found)
  case Nil
  show ?case by simp
next
  case (Cons x xs)
  obtain keep found' where f: "filterItem found x = (keep, found')"
    by (cases "filterItem found x")
  from Cons.prems have d: "distinct (filter keepIf xs)" by (simp split: if_splits)
  from Cons.prems have "keepIf x \<Longrightarrow> x \<notin> set xs" by (auto split: if_splits)
  with set_filterFrom [of found' xs] have "keepIf x \<Longrightarrow> x \<notin> set (filterFrom found' xs)" by blast
  with Cons.IH [OF d, of found'] f show ?case by auto
qed

lemma distinct_removeLastLine:
  "distinct (filter keepIf items) \<Longrightarrow> distinct (filter keepIf (removeLastLine items))"
proof (cases "length items > 1")
  case True
  assume d: "distinct (filter keepIf items)"
  from True have "items = butlast items @ [last items]" by (cases items) auto
  then have "filter keepIf items = filter keepIf (butlast items) @ filter keepIf [last items]"
    by (metis filter_append)
  with d have "distinct (filter keepIf (butlast items))" by simp
  with True show ?thesis by (simp add: removeLastLine_def)
next
  case False
  assume "distinct (filter keepIf items)"
  with False show ?thesis by (simp add: removeLastLine_def)
qed

text \<open>
  C10. A qualifying image source enters \<open>seenImages\<close> when it qualifies, whether the image
  is pushed or, as a second or later image before the content has started, dropped. A
  source that is in \<open>seenImages\<close> without an item in \<open>content\<close> gets none from the rest of
  the loop, whatever follows. The image items that the loop collects are distinct, and so
  are those of the content returned.
\<close>

theorem dropped_image_poisons_dedup:
  "(imageQualifies (seenImages st) s \<longrightarrow>
      s \<in> seenImages (handleImage st s)
      \<and> (\<not> foundFirstContent st \<and> headerImageCount st \<noteq> 0
           \<longrightarrow> content (handleImage st s) = content st))
   \<and> (s \<in> seenImages st \<and> Item Image s \<notin> set (content st)
        \<longrightarrow> Item Image s \<notin> set (content (scrapeLoop name handle ttl st els)))
   \<and> distinct (filter (\<lambda>i. itype i = Image)
        (content (scrapeLoop name handle ttl initialState els)))
   \<and> distinct (filter (\<lambda>i. itype i = Image) (classifyContent name handle ttl els))"
proof -
  have a: "s \<in> seenImages (handleImage st s)
      \<and> (\<not> foundFirstContent st \<and> headerImageCount st \<noteq> 0
           \<longrightarrow> content (handleImage st s) = content st)"
    if "imageQualifies (seenImages st) s"
    by (simp add: handleImage_qualified(1,2) [OF that])
  have b: "Item Image s \<notin> set (content (scrapeLoop name handle ttl st els))"
    if "s \<in> seenImages st" "Item Image s \<notin> set (content st)"
    using that by (simp add: seen_image_not_emitted)
  have c: "distinct (filter (\<lambda>i. itype i = Image)
        (content (scrapeLoop name handle ttl initialState els)))"
    by (rule images_invariant) (simp_all add: initialState_def)
  then have d: "distinct (filter (\<lambda>i. itype i = Image) (classifyContent name handle ttl els))"
    unfolding classifyContent_def filterContent_def
    by (intro distinct_filterFrom distinct_removeLastLine)
  from a b c d show ?thesis by blast
qed

theorem dropped_image_poisons_dedup_witness:
  "imageQualifies {''https://pbs.twimg.com/media/a.jpg''} ''https://pbs.twimg.com/media/b.jpg''
   \<and> handleImage
         (initialState\<lparr>seenImages := {''https://pbs.twimg.com/media/a.jpg''},
                        headerImageCount := 1,
                        content := [Item Image ''https://pbs.twimg.com/media/a.jpg'']\<rparr>)
         ''https://pbs.twimg.com/media/b.jpg''
       = initialState\<lparr>seenImages := {''https://pbs.twimg.com/media/b.jpg'',
                                        ''https://pbs.twimg.com/media/a.jpg''},
                        headerImageCount := 2,
                        content := [Item Image ''https://pbs.twimg.com/media/a.jpg'']\<rparr>
   \<and> Item Image ''https://pbs.twimg.com/media/b.jpg''
       \<notin> set (content (scrapeLoop ''Real Author'' ''@real'' ''My Title''
           (initialState\<lparr>seenImages := {''https://pbs.twimg.com/media/b.jpg'',
                                        ''https://pbs.twimg.com/media/a.jpg''},
                        headerImageCount := 2,
                        content := [Item Image ''https://pbs.twimg.com/media/a.jpg'']\<rparr>)
           [h2Element ''Introduction'',
            imgElement ''https://pbs.twimg.com/media/b.jpg'']))"
proof -
  let ?a = "''https://pbs.twimg.com/media/a.jpg''"
  let ?b = "''https://pbs.twimg.com/media/b.jpg''"
  let ?st1 = "initialState\<lparr>seenImages := {?a}, headerImageCount := 1,
                           content := [Item Image ?a]\<rparr>"
  let ?st2 = "initialState\<lparr>seenImages := {?b, ?a}, headerImageCount := 2,
                           content := [Item Image ?a]\<rparr>"
  have q: "imageQualifies {?a} ?b"
    by (simp add: imageQualifies_def)
  then have q1: "imageQualifies (seenImages ?st1) ?b"
    by simp
  have pre: "\<not> foundFirstContent ?st1 \<and> headerImageCount ?st1 \<noteq> 0"
    by (simp add: initialState_def)
  from dropped_image_poisons_dedup [of ?st1 ?b] q1 pre
  have "?b \<in> seenImages (handleImage ?st1 ?b)"
    and c: "content (handleImage ?st1 ?b) = content ?st1"
    by blast+
  have step: "handleImage ?st1 ?b = ?st2"
    using q1 by (simp add: handleImage_def Let_def initialState_def)
  have "?b \<in> seenImages ?st2 \<and> Item Image ?b \<notin> set (content ?st2)"
    by simp
  with dropped_image_poisons_dedup [of ?st2 ?b "''Real Author''" "''@real''" "''My Title''"]
  have "Item Image ?b \<notin> set (content (scrapeLoop ''Real Author'' ''@real'' ''My Title'' ?st2
           [h2Element ''Introduction'',
            imgElement ?b]))"
    by blast
  with q step show ?thesis by blast
qed

section \<open>Images before and after the content starts\<close>

lemma scrapeElement_IMG:
  "tagName el = IMG \<Longrightarrow> scrapeElement name handle ttl st el = handleImage st (src el)"
  by (simp add: scrapeElement_def)

lemma scrapeElement_text:
  "tagName el \<noteq> IMG \<Longrightarrow> scrapeElement name handle ttl st el = handleText name handle ttl st el"
  by (simp add: scrapeElement_def)

lemma images_before_content:
  "\<not> foundFirstContent st \<Longrightarrow> \<not> reachedFooter st \<Longrightarrow>
   \<forall>e\<in>set imgs. tagName e = IMG \<and> imageQualifies {} (src e) \<Longrightarrow>
   distinct (map src imgs) \<Longrightarrow> set (map src imgs) \<inter> seenImages st = {} \<Longrightarrow>
     content (scrapeLoop name handle ttl st imgs)
       = content st @ (if headerImageCount st = 0
                       then map (\<lambda>e. Item Image (src e)) (take 1 imgs) else [])"
proof (induction imgs arbitrary: st)
  case Nil
  show ?case by simp
next
  case (Cons i imgs)
  let ?st' = "handleImage st (src i)"
  from Cons.prems have q: "imageQualifies (seenImages st) (src i)"
    by (subst imageQualifies_seen) auto
  note h = handleImage_qualified [OF q]
  from Cons.prems h have st': "\<not> foundFirstContent ?st'" "\<not> reachedFooter ?st'"
    "set (map src imgs) \<inter> seenImages ?st' = {}" "headerImageCount ?st' \<noteq> 0"
    by (auto simp: reachedFooter_handleImage)
  from Cons.prems have rest: "\<forall>e\<in>set imgs. tagName e = IMG \<and> imageQualifies {} (src e)"
    "distinct (map src imgs)" by simp_all
  from Cons.IH [OF st'(1,2) rest st'(3)] st'(4)
  have "content (scrapeLoop name handle ttl ?st' imgs) = content ?st'" by simp
  moreover from Cons.prems have "scrapeLoop name handle ttl st (i # imgs)
      = scrapeLoop name handle ttl ?st' imgs"
    by (simp add: scrapeLoop_Cons scrapeElement_IMG del: scrapeLoop.simps)
  ultimately show ?case using h(2) Cons.prems(1) by simp
qed

lemma images_after_content:
  "foundFirstContent st \<Longrightarrow> \<not> reachedFooter st \<Longrightarrow>
   \<forall>e\<in>set imgs. tagName e = IMG \<and> imageQualifies {} (src e) \<Longrightarrow>
   distinct (map src imgs) \<Longrightarrow> set (map src imgs) \<inter> seenImages st = {} \<Longrightarrow>
     content (scrapeLoop name handle ttl st imgs)
       = content st @ map (\<lambda>e. Item Image (src e)) imgs"
proof (induction imgs arbitrary: st)
  case Nil
  show ?case by simp
next
  case (Cons i imgs)
  let ?st' = "handleImage st (src i)"
  from Cons.prems have q: "imageQualifies (seenImages st) (src i)"
    by (subst imageQualifies_seen) auto
  note h = handleImage_qualified [OF q]
  from Cons.prems h have st': "foundFirstContent ?st'" "\<not> reachedFooter ?st'"
    "set (map src imgs) \<inter> seenImages ?st' = {}"
    by (auto simp: reachedFooter_handleImage)
  from Cons.prems have rest: "\<forall>e\<in>set imgs. tagName e = IMG \<and> imageQualifies {} (src e)"
    "distinct (map src imgs)" by simp_all
  from Cons.IH [OF st' (1,2) rest st'(3)]
  have "content (scrapeLoop name handle ttl ?st' imgs)
      = content ?st' @ map (\<lambda>e. Item Image (src e)) imgs" .
  moreover from Cons.prems have "scrapeLoop name handle ttl st (i # imgs)
      = scrapeLoop name handle ttl ?st' imgs"
    by (simp add: scrapeLoop_Cons scrapeElement_IMG del: scrapeLoop.simps)
  ultimately show ?case using h(2) Cons.prems(1) by simp
qed

text \<open>A text that passes the tests and is a heading or longer than 40 characters.\<close>

lemma handleText_substantial:
  assumes "\<not> skipText name handle ttl (seenTexts st) (trim (textContent el))"
    and "isHeadingTag (tagName el) \<or> isStyledAsHeading el (trim (textContent el))
         \<or> length (trim (textContent el)) > 40"
  shows "handleText name handle ttl st el =
     (if hasBlockChildren el \<and> tagName el = DIV
      then st\<lparr>foundFirstContent := True,
              skippedAfterTitle := (if foundFirstContent st then skippedAfterTitle st else 0)\<rparr>
      else st\<lparr>foundFirstContent := True,
              skippedAfterTitle := (if foundFirstContent st then skippedAfterTitle st else 0),
              seenTexts := insert (trim (textContent el)) (seenTexts st),
              content := content st @
                [Item Text
                   (if isHeadingTag (tagName el) \<or> isStyledAsHeading el (trim (textContent el))
                    then ''## '' @ trim (textContent el) else trim (textContent el))]\<rparr>)"
proof -
  have "leadIn st (trim (textContent el))
           (isHeadingTag (tagName el) \<or> isStyledAsHeading el (trim (textContent el)))
         = (False, st\<lparr>foundFirstContent := True,
              skippedAfterTitle := (if foundFirstContent st then skippedAfterTitle st else 0)\<rparr>)"
    using assms(2) by (auto simp: leadIn_def)
  from handleText_unskipped [OF assms(1) this] show ?thesis by simp
qed

section \<open>The lines before the content starts\<close>

lemma handleText_short_discarded:
  assumes "\<not> skipText name handle ttl (seenTexts st) (trim (textContent el))"
    and "\<not> foundFirstContent st"
    and "\<not> isHeadingTag (tagName el)" "\<not> isStyledAsHeading el (trim (textContent el))"
    and "length (trim (textContent el)) \<le> 40"
    and "skippedAfterTitle st < 6"
  shows "handleText name handle ttl st el = st\<lparr>skippedAfterTitle := skippedAfterTitle st + 1\<rparr>"
proof -
  have "leadIn st (trim (textContent el))
           (isHeadingTag (tagName el) \<or> isStyledAsHeading el (trim (textContent el)))
         = (True, st\<lparr>skippedAfterTitle := skippedAfterTitle st + 1\<rparr>)"
    using assms(2-6) by (simp add: leadIn_def Let_def)
  from handleText_unskipped [OF assms(1) this] show ?thesis by simp
qed

text \<open>When \<open>foundFirstContent\<close> is set by one element, and that it stays set.\<close>

lemma foundFirstContent_handleImage:
  "foundFirstContent (handleImage st s) = foundFirstContent st"
  by (simp add: handleImage_def Let_def)

lemma foundFirstContent_handleText:
  "foundFirstContent (handleText name handle ttl st el)
   = (foundFirstContent st
      \<or> (\<not> skipText name handle ttl (seenTexts st) (trim (textContent el))
         \<and> (isHeadingTag (tagName el) \<or> isStyledAsHeading el (trim (textContent el))
            \<or> length (trim (textContent el)) > 40)))"
proof (cases "skipText name handle ttl (seenTexts st) (trim (textContent el))")
  case True
  then show ?thesis by (simp add: handleText_skipped)
next
  case False
  obtain skip st1 where l: "leadIn st (trim (textContent el))
      (isHeadingTag (tagName el) \<or> isStyledAsHeading el (trim (textContent el))) = (skip, st1)"
    by (cases "leadIn st (trim (textContent el))
      (isHeadingTag (tagName el) \<or> isStyledAsHeading el (trim (textContent el)))")
  from l have "foundFirstContent st1
      = (foundFirstContent st
         \<or> isHeadingTag (tagName el) \<or> isStyledAsHeading el (trim (textContent el))
         \<or> length (trim (textContent el)) > 40)"
    by (auto simp: leadIn_def Let_def split: if_splits)
  with False show ?thesis
    by (auto simp: handleText_unskipped [OF False l])
qed

lemma foundFirstContent_scrapeElement:
  "foundFirstContent (scrapeElement name handle ttl st el)
   = (foundFirstContent st
      \<or> (tagName el \<noteq> IMG
         \<and> \<not> skipText name handle ttl (seenTexts st) (trim (textContent el))
         \<and> (isHeadingTag (tagName el) \<or> isStyledAsHeading el (trim (textContent el))
            \<or> length (trim (textContent el)) > 40)))"
  by (simp add: scrapeElement_def foundFirstContent_handleImage foundFirstContent_handleText)

lemma foundFirstContent_scrapeLoop:
  "foundFirstContent st \<Longrightarrow> foundFirstContent (scrapeLoop name handle ttl st els)"
  by (induction els arbitrary: st) (simp_all add: Let_def foundFirstContent_scrapeElement)

lemma handleText_started:
  assumes "\<not> skipText name handle ttl (seenTexts st) (trim (textContent el))"
    and "foundFirstContent st"
  shows "handleText name handle ttl st el =
     (if hasBlockChildren el \<and> tagName el = DIV then st
      else st\<lparr>seenTexts := insert (trim (textContent el)) (seenTexts st),
              content := content st @ [Item Text (if isHeadingTag (tagName el) \<or> isStyledAsHeading el (trim (textContent el))
                    then ''## '' @ trim (textContent el) else trim (textContent el))]\<rparr>)"
proof -
  have "leadIn st (trim (textContent el))
           (isHeadingTag (tagName el) \<or> isStyledAsHeading el (trim (textContent el)))
         = (False, st)"
    using assms(2) by (simp add: leadIn_def)
  from handleText_unskipped [OF assms(1) this] show ?thesis by simp
qed

lemma handleText_short_counted:
  assumes "\<not> skipText name handle ttl (seenTexts st) (trim (textContent el))"
    and "\<not> foundFirstContent st"
    and "\<not> isHeadingTag (tagName el)" "\<not> isStyledAsHeading el (trim (textContent el))"
    and "length (trim (textContent el)) \<le> 40"
    and "skippedAfterTitle st \<ge> 6"
  shows "handleText name handle ttl st el =
     (if hasBlockChildren el \<and> tagName el = DIV then st\<lparr>skippedAfterTitle := skippedAfterTitle st + 1\<rparr>
      else st\<lparr>skippedAfterTitle := skippedAfterTitle st + 1,
              seenTexts := insert (trim (textContent el)) (seenTexts st),
              content := content st @ [Item Text (trim (textContent el))]\<rparr>)"
proof -
  have "leadIn st (trim (textContent el))
           (isHeadingTag (tagName el) \<or> isStyledAsHeading el (trim (textContent el)))
         = (False, st\<lparr>skippedAfterTitle := skippedAfterTitle st + 1\<rparr>)"
    using assms(2-6) by (simp add: leadIn_def Let_def)
  from handleText_unskipped [OF assms(1) this] assms(3,4) show ?thesis by simp
qed

text \<open>
  The nodes before the content starts, text nodes that the tests of lines 496 to 499 pass
  over among them: only those that pass the tests are counted.
\<close>

lemma discard_lead_in:
  "\<not> foundFirstContent st \<Longrightarrow> \<not> reachedFooter st \<Longrightarrow>
   \<forall>e\<in>set lead. tagName e \<noteq> IMG
      \<and> (skipText name handle ttl (seenTexts st) (trim (textContent e))
         \<or> (\<not> isHeadingTag (tagName e) \<and> \<not> isStyledAsHeading e (trim (textContent e))
            \<and> length (trim (textContent e)) \<le> 40)) \<Longrightarrow>
   skippedAfterTitle st
     + length (filter (\<lambda>e. \<not> skipText name handle ttl (seenTexts st) (trim (textContent e)))
         lead) \<le> 6 \<Longrightarrow>
     scrapeLoop name handle ttl st lead
       = st\<lparr>skippedAfterTitle := skippedAfterTitle st
            + length (filter
                (\<lambda>e. \<not> skipText name handle ttl (seenTexts st) (trim (textContent e)))
                lead)\<rparr>"
proof (induction lead arbitrary: st)
  case Nil
  show ?case by simp
next
  case (Cons e lead)
  show ?case
  proof (cases "skipText name handle ttl (seenTexts st) (trim (textContent e))")
    case True
    with Cons.prems have "scrapeLoop name handle ttl st (e # lead)
        = scrapeLoop name handle ttl st lead"
      by (simp add: scrapeLoop_Cons scrapeElement_text handleText_skipped
          del: scrapeLoop.simps)
    moreover from Cons.prems True have "scrapeLoop name handle ttl st lead
        = st\<lparr>skippedAfterTitle := skippedAfterTitle st
            + length (filter
                (\<lambda>e. \<not> skipText name handle ttl (seenTexts st) (trim (textContent e)))
                lead)\<rparr>"
      by (intro Cons.IH) simp_all
    ultimately show ?thesis using True by simp
  next
    case False
    let ?st' = "st\<lparr>skippedAfterTitle := skippedAfterTitle st + 1\<rparr>"
    from Cons.prems False have step: "handleText name handle ttl st e = ?st'"
      by (intro handleText_short_discarded) auto
    from Cons.prems False have "scrapeLoop name handle ttl ?st' lead
        = ?st'\<lparr>skippedAfterTitle := skippedAfterTitle ?st'
            + length (filter
                (\<lambda>e. \<not> skipText name handle ttl (seenTexts ?st') (trim (textContent e)))
                lead)\<rparr>"
      by (intro Cons.IH) simp_all
    with Cons.prems step False show ?thesis
      by (simp add: scrapeLoop_Cons scrapeElement_text del: scrapeLoop.simps)
  qed
qed

text \<open>
  C4, as the code has it. A node is substantial when it passes the tests of lines 496 to
  499 and is a heading or has more than 40 characters (\<open>text.length > 40\<close>). From the
  start of the loop, the text nodes that the tests pass over change nothing, and up to
  six short nodes that pass them are only counted. A substantial node then sets
  \<open>foundFirstContent\<close>, resets the counter and is pushed; a seventh short node is counted
  and pushed without setting the flag, and a longer node after it is pushed and sets the
  flag; a \<open>div\<close> that wraps block elements is not pushed in either place. Once the flag
  is set the counter no longer applies: every node that passes the tests is pushed,
  short or not, wrapping \<open>div\<close>s apart.
\<close>

theorem lead_in_suppression:
  assumes "\<forall>e\<in>set lead. tagName e \<noteq> IMG
      \<and> (skipText name handle ttl {} (trim (textContent e))
         \<or> (\<not> isHeadingTag (tagName e) \<and> \<not> isStyledAsHeading e (trim (textContent e))
            \<and> length (trim (textContent e)) \<le> 40))"
    and "length (filter (\<lambda>e. \<not> skipText name handle ttl {} (trim (textContent e))) lead) \<le> 6"
    and "tagName x \<noteq> IMG" and "\<not> skipText name handle ttl {} (trim (textContent x))"
  shows "scrapeLoop name handle ttl initialState lead
       = initialState\<lparr>skippedAfterTitle :=
           length (filter (\<lambda>e. \<not> skipText name handle ttl {} (trim (textContent e))) lead)\<rparr>
   \<and> ((isHeadingTag (tagName x) \<or> isStyledAsHeading x (trim (textContent x))
       \<or> length (trim (textContent x)) > 40)
      \<longrightarrow> scrapeLoop name handle ttl initialState (lead @ [x])
          = (if hasBlockChildren x \<and> tagName x = DIV
             then initialState\<lparr>foundFirstContent := True, skippedAfterTitle := 0\<rparr>
             else initialState
                    \<lparr>foundFirstContent := True, skippedAfterTitle := 0,
                     seenTexts := {trim (textContent x)},
                     content := [Item Text (if isHeadingTag (tagName x) \<or> isStyledAsHeading x (trim (textContent x))
                         then ''## '' @ trim (textContent x) else trim (textContent x))]\<rparr>))
   \<and> (\<not> isHeadingTag (tagName x) \<and> \<not> isStyledAsHeading x (trim (textContent x))
       \<and> length (trim (textContent x)) \<le> 40
       \<and> length (filter (\<lambda>e. \<not> skipText name handle ttl {} (trim (textContent e))) lead) = 6
      \<longrightarrow> scrapeLoop name handle ttl initialState (lead @ [x])
          = (if hasBlockChildren x \<and> tagName x = DIV
             then initialState\<lparr>skippedAfterTitle := 7\<rparr>
             else initialState
                    \<lparr>skippedAfterTitle := 7, seenTexts := {trim (textContent x)},
                     content := [Item Text (trim (textContent x))]\<rparr>))
   \<and> (\<not> isHeadingTag (tagName x) \<and> \<not> isStyledAsHeading x (trim (textContent x))
       \<and> length (trim (textContent x)) \<le> 40
       \<and> length (filter (\<lambda>e. \<not> skipText name handle ttl {} (trim (textContent e))) lead) < 6
      \<longrightarrow> scrapeLoop name handle ttl initialState (lead @ [x])
          = initialState\<lparr>skippedAfterTitle :=
              length (filter (\<lambda>e. \<not> skipText name handle ttl {} (trim (textContent e))) lead) + 1\<rparr>)
   \<and> scrapeLoop name handle ttl initialState (lead @ x # rest)
       = scrapeLoop name handle ttl (scrapeLoop name handle ttl initialState (lead @ [x])) rest
   \<and> (foundFirstContent st \<and> tagName z \<noteq> IMG
       \<and> \<not> skipText name handle ttl (seenTexts st) (trim (textContent z))
      \<longrightarrow> scrapeElement name handle ttl st z
          = (if hasBlockChildren z \<and> tagName z = DIV then st
             else st\<lparr>seenTexts := insert (trim (textContent z)) (seenTexts st),
                     content := content st @
                       [Item Text (if isHeadingTag (tagName z) \<or> isStyledAsHeading z (trim (textContent z))
                           then ''## '' @ trim (textContent z) else trim (textContent z))]\<rparr>))
   \<and> (\<not> foundFirstContent st \<and> tagName z \<noteq> IMG
       \<and> \<not> skipText name handle ttl (seenTexts st) (trim (textContent z))
       \<and> (isHeadingTag (tagName z) \<or> isStyledAsHeading z (trim (textContent z))
           \<or> length (trim (textContent z)) > 40)
      \<longrightarrow> scrapeElement name handle ttl st z
          = (if hasBlockChildren z \<and> tagName z = DIV
             then st\<lparr>foundFirstContent := True, skippedAfterTitle := 0\<rparr>
             else st\<lparr>foundFirstContent := True, skippedAfterTitle := 0,
                     seenTexts := insert (trim (textContent z)) (seenTexts st),
                     content := content st @
                       [Item Text (if isHeadingTag (tagName z) \<or> isStyledAsHeading z (trim (textContent z))
                           then ''## '' @ trim (textContent z) else trim (textContent z))]\<rparr>))
   \<and> (tagName z \<noteq> IMG \<and> skipText name handle ttl (seenTexts st) (trim (textContent z))
      \<longrightarrow> scrapeElement name handle ttl st z = st)
   \<and> (\<not> isHeadingTag (tagName x) \<and> \<not> isStyledAsHeading x (trim (textContent x))
       \<and> length (trim (textContent x)) \<le> 40
       \<and> length (filter (\<lambda>e. \<not> skipText name handle ttl {} (trim (textContent e))) lead) = 6
       \<and> \<not> (hasBlockChildren x \<and> tagName x = DIV)
       \<and> tagName y \<noteq> IMG
       \<and> \<not> skipText name handle ttl {trim (textContent x)} (trim (textContent y))
       \<and> \<not> (hasBlockChildren y \<and> tagName y = DIV)
       \<and> length (trim (textContent y)) > 40
      \<longrightarrow> content (scrapeLoop name handle ttl initialState (lead @ [x, y]))
            = [Item Text (trim (textContent x)),
               Item Text (if isHeadingTag (tagName y) \<or> isStyledAsHeading y (trim (textContent y))
                   then ''## '' @ trim (textContent y) else trim (textContent y))]
          \<and> foundFirstContent (scrapeLoop name handle ttl initialState (lead @ [x, y])))
   \<and> ((isHeadingTag (tagName x) \<or> isStyledAsHeading x (trim (textContent x))
       \<or> length (trim (textContent x)) > 40)
       \<and> \<not> (hasBlockChildren x \<and> tagName x = DIV)
       \<and> tagName y \<noteq> IMG
       \<and> \<not> skipText name handle ttl {trim (textContent x)} (trim (textContent y))
       \<and> \<not> (hasBlockChildren y \<and> tagName y = DIV)
      \<longrightarrow> content (scrapeLoop name handle ttl initialState (lead @ [x, y]))
            = [Item Text (if isHeadingTag (tagName x) \<or> isStyledAsHeading x (trim (textContent x))
                   then ''## '' @ trim (textContent x) else trim (textContent x)),
               Item Text (if isHeadingTag (tagName y) \<or> isStyledAsHeading y (trim (textContent y))
                   then ''## '' @ trim (textContent y) else trim (textContent y))])
   \<and> (foundFirstContent st \<longrightarrow> foundFirstContent (scrapeLoop name handle ttl st rest))
   \<and> (\<not> foundFirstContent st \<and> tagName z \<noteq> IMG
       \<and> \<not> skipText name handle ttl (seenTexts st) (trim (textContent z))
       \<and> \<not> isHeadingTag (tagName z) \<and> \<not> isStyledAsHeading z (trim (textContent z))
       \<and> length (trim (textContent z)) \<le> 40
      \<longrightarrow> scrapeElement name handle ttl st z
          = (if skippedAfterTitle st < 6 \<or> (hasBlockChildren z \<and> tagName z = DIV)
             then st\<lparr>skippedAfterTitle := skippedAfterTitle st + 1\<rparr>
             else st\<lparr>skippedAfterTitle := skippedAfterTitle st + 1,
                     seenTexts := insert (trim (textContent z)) (seenTexts st),
                     content := content st @ [Item Text (trim (textContent z))]\<rparr>))"
proof -
  let ?k = "length (filter (\<lambda>e. \<not> skipText name handle ttl {} (trim (textContent e))) lead)"
  let ?st6 = "initialState\<lparr>skippedAfterTitle := ?k\<rparr>"
  have init: "\<not> foundFirstContent initialState" "\<not> reachedFooter initialState"
    "seenTexts initialState = {}" "skippedAfterTitle initialState = 0"
    "content initialState = []"
    by (simp_all add: initialState_def)
  have c1: "scrapeLoop name handle ttl initialState lead = ?st6"
    using discard_lead_in [OF init(1,2), of lead name handle ttl] assms(1,2) init(3,4)
    by simp
  have st6: "\<not> foundFirstContent ?st6" "\<not> reachedFooter ?st6" "seenTexts ?st6 = {}"
    "skippedAfterTitle ?st6 = ?k" "content ?st6 = []"
    using init by simp_all
  have one: "scrapeLoop name handle ttl initialState (lead @ [x]) = handleText name handle ttl ?st6 x"
    using init(2) st6(2) assms(3)
    by (simp add: scrapeLoop_append c1 scrapeLoop_Cons scrapeElement_text
        del: scrapeLoop.simps(2))
  from assms(4) st6(3)
  have ux: "\<not> skipText name handle ttl (seenTexts ?st6) (trim (textContent x))"
    by simp
  have c2: "(isHeadingTag (tagName x) \<or> isStyledAsHeading x (trim (textContent x))
       \<or> length (trim (textContent x)) > 40)
      \<longrightarrow> scrapeLoop name handle ttl initialState (lead @ [x])
          = (if hasBlockChildren x \<and> tagName x = DIV
             then initialState\<lparr>foundFirstContent := True, skippedAfterTitle := 0\<rparr>
             else initialState
                    \<lparr>foundFirstContent := True, skippedAfterTitle := 0,
                     seenTexts := {trim (textContent x)},
                     content := [Item Text (if isHeadingTag (tagName x) \<or> isStyledAsHeading x (trim (textContent x))
                         then ''## '' @ trim (textContent x) else trim (textContent x))]\<rparr>)"
    using init by (auto simp: one handleText_substantial [OF ux])
  have c3: "\<not> isHeadingTag (tagName x) \<and> \<not> isStyledAsHeading x (trim (textContent x))
       \<and> length (trim (textContent x)) \<le> 40
       \<and> length (filter (\<lambda>e. \<not> skipText name handle ttl {} (trim (textContent e))) lead) = 6
      \<longrightarrow> scrapeLoop name handle ttl initialState (lead @ [x])
          = (if hasBlockChildren x \<and> tagName x = DIV
             then initialState\<lparr>skippedAfterTitle := 7\<rparr>
             else initialState
                    \<lparr>skippedAfterTitle := 7, seenTexts := {trim (textContent x)},
                     content := [Item Text (trim (textContent x))]\<rparr>)"
    using init st6 handleText_short_counted [OF ux st6(1)] by (auto simp: one)
  have c3b: "\<not> isHeadingTag (tagName x) \<and> \<not> isStyledAsHeading x (trim (textContent x))
       \<and> length (trim (textContent x)) \<le> 40
       \<and> length (filter (\<lambda>e. \<not> skipText name handle ttl {} (trim (textContent e))) lead) < 6
      \<longrightarrow> scrapeLoop name handle ttl initialState (lead @ [x])
          = initialState\<lparr>skippedAfterTitle :=
              length (filter (\<lambda>e. \<not> skipText name handle ttl {} (trim (textContent e))) lead) + 1\<rparr>"
    using init st6 handleText_short_discarded [OF ux st6(1)] by (auto simp: one)
  have nf: "\<not> reachedFooter (scrapeLoop name handle ttl initialState (lead @ [x]))"
    using init(2) by (simp add: reachedFooter_scrapeLoop)
  have c4: "scrapeLoop name handle ttl initialState (lead @ x # rest)
       = scrapeLoop name handle ttl (scrapeLoop name handle ttl initialState (lead @ [x])) rest"
    using scrapeLoop_append [OF init(2), of name handle ttl "lead @ [x]" rest] by simp
  have c5: "foundFirstContent st \<and> tagName z \<noteq> IMG
       \<and> \<not> skipText name handle ttl (seenTexts st) (trim (textContent z))
      \<longrightarrow> scrapeElement name handle ttl st z
          = (if hasBlockChildren z \<and> tagName z = DIV then st
             else st\<lparr>seenTexts := insert (trim (textContent z)) (seenTexts st),
                     content := content st @
                       [Item Text (if isHeadingTag (tagName z) \<or> isStyledAsHeading z (trim (textContent z))
                           then ''## '' @ trim (textContent z) else trim (textContent z))]\<rparr>)"
  proof (intro impI, elim conjE)
    assume z: "foundFirstContent st" "tagName z \<noteq> IMG"
      "\<not> skipText name handle ttl (seenTexts st) (trim (textContent z))"
    from z(1) have "leadIn st (trim (textContent z))
          (isHeadingTag (tagName z) \<or> isStyledAsHeading z (trim (textContent z)))
        = (False, st)"
      by (simp add: leadIn_def)
    from handleText_unskipped [OF z(3) this] z(2)
    show "scrapeElement name handle ttl st z
          = (if hasBlockChildren z \<and> tagName z = DIV then st
             else st\<lparr>seenTexts := insert (trim (textContent z)) (seenTexts st),
                     content := content st @
                       [Item Text (if isHeadingTag (tagName z) \<or> isStyledAsHeading z (trim (textContent z))
                           then ''## '' @ trim (textContent z) else trim (textContent z))]\<rparr>)"
      by (simp add: scrapeElement_text)
  qed
  have c6: "\<not> foundFirstContent st \<and> tagName z \<noteq> IMG
       \<and> \<not> skipText name handle ttl (seenTexts st) (trim (textContent z))
       \<and> (isHeadingTag (tagName z) \<or> isStyledAsHeading z (trim (textContent z))
           \<or> length (trim (textContent z)) > 40)
      \<longrightarrow> scrapeElement name handle ttl st z
          = (if hasBlockChildren z \<and> tagName z = DIV
             then st\<lparr>foundFirstContent := True, skippedAfterTitle := 0\<rparr>
             else st\<lparr>foundFirstContent := True, skippedAfterTitle := 0,
                     seenTexts := insert (trim (textContent z)) (seenTexts st),
                     content := content st @
                       [Item Text (if isHeadingTag (tagName z) \<or> isStyledAsHeading z (trim (textContent z))
                           then ''## '' @ trim (textContent z) else trim (textContent z))]\<rparr>)"
    by (auto simp: scrapeElement_text handleText_substantial)
  have c7: "tagName z \<noteq> IMG \<and> skipText name handle ttl (seenTexts st) (trim (textContent z))
      \<longrightarrow> scrapeElement name handle ttl st z = st"
    by (simp add: scrapeElement_text handleText_skipped)
  have two: "scrapeLoop name handle ttl initialState (lead @ [x, y])
      = scrapeElement name handle ttl (scrapeLoop name handle ttl initialState (lead @ [x])) y"
    using scrapeLoop_append [OF init(2), of name handle ttl "lead @ [x]" "[y]"] nf
    by (simp add: scrapeLoop_Cons del: scrapeLoop.simps(2))
  have c8: "\<not> isHeadingTag (tagName x) \<and> \<not> isStyledAsHeading x (trim (textContent x))
       \<and> length (trim (textContent x)) \<le> 40
       \<and> length (filter (\<lambda>e. \<not> skipText name handle ttl {} (trim (textContent e))) lead) = 6
       \<and> \<not> (hasBlockChildren x \<and> tagName x = DIV)
       \<and> tagName y \<noteq> IMG
       \<and> \<not> skipText name handle ttl {trim (textContent x)} (trim (textContent y))
       \<and> \<not> (hasBlockChildren y \<and> tagName y = DIV)
       \<and> length (trim (textContent y)) > 40
      \<longrightarrow> content (scrapeLoop name handle ttl initialState (lead @ [x, y]))
            = [Item Text (trim (textContent x)),
               Item Text (if isHeadingTag (tagName y) \<or> isStyledAsHeading y (trim (textContent y))
                   then ''## '' @ trim (textContent y) else trim (textContent y))]
          \<and> foundFirstContent (scrapeLoop name handle ttl initialState (lead @ [x, y]))"
  proof (intro impI, elim conjE)
    assume x: "\<not> isHeadingTag (tagName x)" "\<not> isStyledAsHeading x (trim (textContent x))"
      "length (trim (textContent x)) \<le> 40" "?k = 6" "\<not> (hasBlockChildren x \<and> tagName x = DIV)"
      and y: "tagName y \<noteq> IMG"
      "\<not> skipText name handle ttl {trim (textContent x)} (trim (textContent y))"
      "\<not> (hasBlockChildren y \<and> tagName y = DIV)" "length (trim (textContent y)) > 40"
    let ?st7 = "initialState
                    \<lparr>skippedAfterTitle := 7, seenTexts := {trim (textContent x)},
                     content := [Item Text (trim (textContent x))]\<rparr>"
    from c3 x have s7: "scrapeLoop name handle ttl initialState (lead @ [x]) = ?st7" by simp
    have "\<not> foundFirstContent ?st7" using init by simp
    moreover from y(2) init
    have "\<not> skipText name handle ttl (seenTexts ?st7) (trim (textContent y))"
      by simp
    ultimately show "content (scrapeLoop name handle ttl initialState (lead @ [x, y]))
            = [Item Text (trim (textContent x)),
               Item Text (if isHeadingTag (tagName y) \<or> isStyledAsHeading y (trim (textContent y))
                   then ''## '' @ trim (textContent y) else trim (textContent y))]
          \<and> foundFirstContent (scrapeLoop name handle ttl initialState (lead @ [x, y]))"
      using y(1,3,4) init
      by (simp add: two s7 scrapeElement_text handleText_substantial)
  qed
  have c9: "(isHeadingTag (tagName x) \<or> isStyledAsHeading x (trim (textContent x))
       \<or> length (trim (textContent x)) > 40)
       \<and> \<not> (hasBlockChildren x \<and> tagName x = DIV)
       \<and> tagName y \<noteq> IMG
       \<and> \<not> skipText name handle ttl {trim (textContent x)} (trim (textContent y))
       \<and> \<not> (hasBlockChildren y \<and> tagName y = DIV)
      \<longrightarrow> content (scrapeLoop name handle ttl initialState (lead @ [x, y]))
            = [Item Text (if isHeadingTag (tagName x) \<or> isStyledAsHeading x (trim (textContent x))
                   then ''## '' @ trim (textContent x) else trim (textContent x)),
               Item Text (if isHeadingTag (tagName y) \<or> isStyledAsHeading y (trim (textContent y))
                   then ''## '' @ trim (textContent y) else trim (textContent y))]"
  proof (intro impI, elim conjE)
    assume x: "(isHeadingTag (tagName x) \<or> isStyledAsHeading x (trim (textContent x))
       \<or> length (trim (textContent x)) > 40)" "\<not> (hasBlockChildren x \<and> tagName x = DIV)"
      and y: "tagName y \<noteq> IMG"
      "\<not> skipText name handle ttl {trim (textContent x)} (trim (textContent y))"
      "\<not> (hasBlockChildren y \<and> tagName y = DIV)"
    let ?st7 = "initialState
                    \<lparr>foundFirstContent := True, skippedAfterTitle := 0,
                     seenTexts := {trim (textContent x)},
                     content := [Item Text (if isHeadingTag (tagName x) \<or> isStyledAsHeading x (trim (textContent x))
                   then ''## '' @ trim (textContent x) else trim (textContent x))]\<rparr>"
    from c2 x have s7: "scrapeLoop name handle ttl initialState (lead @ [x]) = ?st7" by simp
    have "foundFirstContent ?st7" by simp
    moreover from y(2) init
    have "\<not> skipText name handle ttl (seenTexts ?st7) (trim (textContent y))"
      by simp
    ultimately show "content (scrapeLoop name handle ttl initialState (lead @ [x, y]))
            = [Item Text (if isHeadingTag (tagName x) \<or> isStyledAsHeading x (trim (textContent x))
                   then ''## '' @ trim (textContent x) else trim (textContent x)),
               Item Text (if isHeadingTag (tagName y) \<or> isStyledAsHeading y (trim (textContent y))
                   then ''## '' @ trim (textContent y) else trim (textContent y))]"
      using y(1,3) init
      by (simp add: two s7 scrapeElement_text handleText_started)
  qed
  have c10: "foundFirstContent st \<longrightarrow> foundFirstContent (scrapeLoop name handle ttl st rest)"
    by (simp add: foundFirstContent_scrapeLoop)
  have c11: "\<not> foundFirstContent st \<and> tagName z \<noteq> IMG
       \<and> \<not> skipText name handle ttl (seenTexts st) (trim (textContent z))
       \<and> \<not> isHeadingTag (tagName z) \<and> \<not> isStyledAsHeading z (trim (textContent z))
       \<and> length (trim (textContent z)) \<le> 40
      \<longrightarrow> scrapeElement name handle ttl st z
          = (if skippedAfterTitle st < 6 \<or> (hasBlockChildren z \<and> tagName z = DIV)
             then st\<lparr>skippedAfterTitle := skippedAfterTitle st + 1\<rparr>
             else st\<lparr>skippedAfterTitle := skippedAfterTitle st + 1,
                     seenTexts := insert (trim (textContent z)) (seenTexts st),
                     content := content st @ [Item Text (trim (textContent z))]\<rparr>)"
  proof (intro impI, elim conjE)
    assume z: "\<not> foundFirstContent st" "tagName z \<noteq> IMG"
      "\<not> skipText name handle ttl (seenTexts st) (trim (textContent z))"
      "\<not> isHeadingTag (tagName z)" "\<not> isStyledAsHeading z (trim (textContent z))"
      "length (trim (textContent z)) \<le> 40"
    show "scrapeElement name handle ttl st z
          = (if skippedAfterTitle st < 6 \<or> (hasBlockChildren z \<and> tagName z = DIV)
             then st\<lparr>skippedAfterTitle := skippedAfterTitle st + 1\<rparr>
             else st\<lparr>skippedAfterTitle := skippedAfterTitle st + 1,
                     seenTexts := insert (trim (textContent z)) (seenTexts st),
                     content := content st @ [Item Text (trim (textContent z))]\<rparr>)"
    proof (cases "skippedAfterTitle st < 6")
      case True
      with handleText_short_discarded [OF z(3,1,4,5,6)] z(2) show ?thesis
        by (simp add: scrapeElement_text)
    next
      case False
      then have "skippedAfterTitle st \<ge> 6" by simp
      from handleText_short_counted [OF z(3,1,4,5,6) this] False z(2) show ?thesis
        by (simp add: scrapeElement_text)
    qed
  qed
  from c1 c2 c3 c3b c4 c5 c6 c7 c8 c9 c10 c11 show ?thesis by blast
qed

theorem lead_in_suppression_witness:
  "list_all
     (\<lambda>e. tagName e \<noteq> IMG
        \<and> (skipText ''Real Author'' ''@real'' ''My Title'' {} (trim (textContent e))
           \<or> (\<not> isHeadingTag (tagName e) \<and> \<not> isStyledAsHeading e (trim (textContent e))
              \<and> length (trim (textContent e)) \<le> 40)))
     (pElement ''My Title'' # pElement ''Log in''
      # map pElement [''line 1'', ''line 2'', ''line 3'', ''line 4'', ''line 5'', ''line 6''])
   \<and> length (filter
        (\<lambda>e. \<not> skipText ''Real Author'' ''@real'' ''My Title'' {} (trim (textContent e)))
        (pElement ''My Title'' # pElement ''Log in''
      # map pElement [''line 1'', ''line 2'', ''line 3'', ''line 4'', ''line 5'', ''line 6''])) = 6
   \<and> scrapeLoop ''Real Author'' ''@real'' ''My Title'' initialState
        (pElement ''My Title'' # pElement ''Log in''
      # map pElement [''line 1'', ''line 2'', ''line 3'', ''line 4'', ''line 5'', ''line 6''])
      = initialState\<lparr>skippedAfterTitle := 6\<rparr>
   \<and> length (trim ''This paragraph is long enough to start the content.'') > 40
   \<and> scrapeLoop ''Real Author'' ''@real'' ''My Title'' initialState
        ((pElement ''My Title'' # pElement ''Log in''
      # map pElement [''line 1'', ''line 2'', ''line 3'', ''line 4'', ''line 5'', ''line 6''])
         @ [pElement ''This paragraph is long enough to start the content.''])
      = initialState
          \<lparr>foundFirstContent := True, skippedAfterTitle := 0,
           seenTexts := {''This paragraph is long enough to start the content.''},
           content := [Item Text ''This paragraph is long enough to start the content.'']\<rparr>
   \<and> content (scrapeLoop ''Real Author'' ''@real'' ''My Title'' initialState
        ((pElement ''My Title'' # pElement ''Log in''
      # map pElement [''line 1'', ''line 2'', ''line 3'', ''line 4'', ''line 5'', ''line 6''])
         @ [pElement ''This paragraph is long enough to start the content.'',
            pElement ''short after'']))
      = [Item Text ''This paragraph is long enough to start the content.'',
         Item Text ''short after'']
   \<and> length (trim ''line 7'') \<le> 40
   \<and> scrapeLoop ''Real Author'' ''@real'' ''My Title'' initialState
        ((pElement ''My Title'' # pElement ''Log in''
      # map pElement [''line 1'', ''line 2'', ''line 3'', ''line 4'', ''line 5'', ''line 6''])
         @ [pElement ''line 7''])
      = initialState
          \<lparr>skippedAfterTitle := 7, seenTexts := {''line 7''},
           content := [Item Text ''line 7'']\<rparr>
   \<and> scrapeLoop ''Real Author'' ''@real'' ''My Title'' initialState
        ((pElement ''My Title'' # pElement ''Log in''
      # map pElement [''line 1'', ''line 2'', ''line 3'', ''line 4'', ''line 5'', ''line 6''])
         @ [wrapperDiv ''line 7''])
      = initialState\<lparr>skippedAfterTitle := 7\<rparr>
   \<and> content (scrapeLoop ''Real Author'' ''@real'' ''My Title'' initialState
        ((pElement ''My Title'' # pElement ''Log in''
      # map pElement [''line 1'', ''line 2'', ''line 3'', ''line 4'', ''line 5'', ''line 6''])
         @ [pElement ''line 7'',
            pElement ''This paragraph is long enough to start the content.'']))
      = [Item Text ''line 7'',
         Item Text ''This paragraph is long enough to start the content.'']
   \<and> foundFirstContent (scrapeLoop ''Real Author'' ''@real'' ''My Title'' initialState
        ((pElement ''My Title'' # pElement ''Log in''
      # map pElement [''line 1'', ''line 2'', ''line 3'', ''line 4'', ''line 5'', ''line 6''])
         @ [pElement ''line 7'',
            pElement ''This paragraph is long enough to start the content.'']))
   \<and> scrapeLoop ''Real Author'' ''@real'' ''My Title'' initialState
        [pElement ''My Title'', pElement ''line 1'', pElement ''line 2'']
      = initialState\<lparr>skippedAfterTitle := 2\<rparr>
   \<and> scrapeElement ''Real Author'' ''@real'' ''My Title''
        (initialState\<lparr>foundFirstContent := True\<rparr>) (pElement ''short after'')
      = initialState\<lparr>foundFirstContent := True, seenTexts := {''short after''},
          content := [Item Text ''short after'']\<rparr>
   \<and> scrapeElement ''Real Author'' ''@real'' ''My Title''
        (initialState\<lparr>foundFirstContent := True\<rparr>) (pElement ''Log in'')
      = initialState\<lparr>foundFirstContent := True\<rparr>"
proof -
  define lead where "lead = pElement ''My Title'' # pElement ''Log in''
      # map pElement [''line 1'', ''line 2'', ''line 3'', ''line 4'', ''line 5'', ''line 6'']"
  define lead2 where "lead2 = [pElement ''My Title'', pElement ''line 1'']"
  let ?long = "''This paragraph is long enough to start the content.''"
  let ?loop = "scrapeLoop ''Real Author'' ''@real'' ''My Title'' initialState"
  let ?skip = "skipText ''Real Author'' ''@real'' ''My Title''"
  let ?st = "initialState\<lparr>foundFirstContent := True\<rparr>"
  note ev = pElement_def wrapperDiv_def skipText_def skipPatterns_def trim_def
    isWhiteSpace_def canonicalize_Char testHandleOnly_def testDateStamp_def
    isHeadingTag_def isStyledAsHeading_def orDefault_def
  have lead: "\<forall>e\<in>set lead. tagName e \<noteq> IMG
      \<and> (?skip {} (trim (textContent e))
         \<or> (\<not> isHeadingTag (tagName e) \<and> \<not> isStyledAsHeading e (trim (textContent e))
            \<and> length (trim (textContent e)) \<le> 40))"
    unfolding lead_def by (simp add: ev)
  have k: "length (filter (\<lambda>e. \<not> ?skip {} (trim (textContent e))) lead) = 6"
    unfolding lead_def by (simp add: ev)
  then have k6: "length (filter (\<lambda>e. \<not> ?skip {} (trim (textContent e))) lead) \<le> 6"
    by simp
  have lead2: "\<forall>e\<in>set lead2. tagName e \<noteq> IMG
      \<and> (?skip {} (trim (textContent e))
         \<or> (\<not> isHeadingTag (tagName e) \<and> \<not> isStyledAsHeading e (trim (textContent e))
            \<and> length (trim (textContent e)) \<le> 40))"
    unfolding lead2_def by (simp add: ev)
  have k2: "length (filter (\<lambda>e. \<not> ?skip {} (trim (textContent e))) lead2) = 1"
    unfolding lead2_def by (simp add: ev)
  then have k26: "length (filter (\<lambda>e. \<not> ?skip {} (trim (textContent e))) lead2) \<le> 6"
    by simp
  have tr: "trim (textContent (pElement ?long)) = ?long"
    "trim (textContent (pElement ''line 7'')) = ''line 7''"
    "trim (textContent (wrapperDiv ''line 7'')) = ''line 7''"
    "trim (textContent (pElement ''line 2'')) = ''line 2''"
    "trim (textContent (pElement ''short after'')) = ''short after''"
    "trim ?long = ?long" "trim ''line 7'' = ''line 7''"
    by (simp_all add: pElement_def wrapperDiv_def trim_def isWhiteSpace_def)
  have un: "\<not> ?skip {} ?long" "\<not> ?skip {} ''line 7''" "\<not> ?skip {} ''line 2''"
    "\<not> ?skip {''line 7''} ?long" "\<not> ?skip {?long} ''short after''"
    "\<not> ?skip {} ''short after''"
    "?skip {} (trim (textContent (pElement ''Log in'')))"
    by (simp_all add: ev)
  have plain: "tagName (pElement u) = P" "hasBlockChildren (pElement u) = False"
    "\<not> isStyledAsHeading (pElement u) v" "tagName (wrapperDiv u) = DIV"
    "hasBlockChildren (wrapperDiv u) = True" "\<not> isStyledAsHeading (wrapperDiv u) v"
    for u v
    by (simp_all add: pElement_def wrapperDiv_def isStyledAsHeading_def orDefault_def)
  have init: "seenTexts ?st = {}" "foundFirstContent ?st" "content ?st = []"
    by (simp_all add: initialState_def)
  have xl: "tagName (pElement ?long) \<noteq> IMG"
    "\<not> ?skip {} (trim (textContent (pElement ?long)))"
    and x7: "tagName (pElement ''line 7'') \<noteq> IMG"
    "\<not> ?skip {} (trim (textContent (pElement ''line 7'')))"
    and xw: "tagName (wrapperDiv ''line 7'') \<noteq> IMG"
    "\<not> ?skip {} (trim (textContent (wrapperDiv ''line 7'')))"
    and x2: "tagName (pElement ''line 2'') \<noteq> IMG"
    "\<not> ?skip {} (trim (textContent (pElement ''line 2'')))"
    using un by (simp_all add: tr plain)
  note long = lead_in_suppression [OF lead k6 xl, where y = "pElement ''short after''"]
  note seven = lead_in_suppression [OF lead k6 x7, where y = "pElement ?long"]
  note wrapped = lead_in_suppression [OF lead k6 xw]
  note two = lead_in_suppression [OF lead2 k26 x2]
  note after = lead_in_suppression [OF lead k6 xl, where st = ?st
      and z = "pElement ''short after''"]
  note login = lead_in_suppression [OF lead k6 xl, where st = ?st
      and z = "pElement ''Log in''"]
  have a: "?loop lead = initialState\<lparr>skippedAfterTitle := 6\<rparr>"
    using long [THEN conjunct1] k by simp
  have b: "?loop (lead @ [pElement ?long])
      = initialState\<lparr>foundFirstContent := True, skippedAfterTitle := 0,
          seenTexts := {?long}, content := [Item Text ?long]\<rparr>"
    using long [THEN conjunct2, THEN conjunct1] un
    by (simp add: tr plain isHeadingTag_def)
  have c: "content (?loop (lead @ [pElement ?long, pElement ''short after'']))
      = [Item Text ?long, Item Text ''short after'']"
    using long [THEN conjunct2, THEN conjunct2, THEN conjunct2, THEN conjunct2, THEN conjunct2,
        THEN conjunct2, THEN conjunct2, THEN conjunct2, THEN conjunct2, THEN conjunct1] un
    by (simp add: tr plain isHeadingTag_def)
  have d: "?loop (lead @ [pElement ''line 7''])
      = initialState\<lparr>skippedAfterTitle := 7, seenTexts := {''line 7''},
          content := [Item Text ''line 7'']\<rparr>"
    using seven [THEN conjunct2, THEN conjunct2, THEN conjunct1] un k
    by (simp add: tr plain isHeadingTag_def)
  have e: "content (?loop (lead @ [pElement ''line 7'', pElement ?long]))
      = [Item Text ''line 7'', Item Text ?long]"
      "foundFirstContent (?loop (lead @ [pElement ''line 7'', pElement ?long]))"
    using seven [THEN conjunct2, THEN conjunct2, THEN conjunct2, THEN conjunct2, THEN conjunct2,
        THEN conjunct2, THEN conjunct2, THEN conjunct2, THEN conjunct1] un k
    by (simp_all add: tr plain isHeadingTag_def)
  have f: "?loop (lead @ [wrapperDiv ''line 7'']) = initialState\<lparr>skippedAfterTitle := 7\<rparr>"
    using wrapped [THEN conjunct2, THEN conjunct2, THEN conjunct1] un k
    by (simp add: tr plain isHeadingTag_def)
  have "?loop (lead2 @ [pElement ''line 2'']) = initialState\<lparr>skippedAfterTitle := 2\<rparr>"
    using two [THEN conjunct2, THEN conjunct2, THEN conjunct2, THEN conjunct1] un k2
    by (simp add: tr plain isHeadingTag_def)
  then have g: "?loop [pElement ''My Title'', pElement ''line 1'', pElement ''line 2'']
      = initialState\<lparr>skippedAfterTitle := 2\<rparr>"
    unfolding lead2_def append.simps .
  have h: "scrapeElement ''Real Author'' ''@real'' ''My Title'' ?st (pElement ''short after'')
      = ?st\<lparr>seenTexts := {''short after''}, content := [Item Text ''short after'']\<rparr>"
    "scrapeElement ''Real Author'' ''@real'' ''My Title'' ?st (pElement ''Log in'') = ?st"
    using after [THEN conjunct2, THEN conjunct2, THEN conjunct2, THEN conjunct2, THEN conjunct2,
        THEN conjunct1] login [THEN conjunct2, THEN conjunct2, THEN conjunct2, THEN conjunct2,
        THEN conjunct2, THEN conjunct2, THEN conjunct2, THEN conjunct1] un init
    by (simp_all add: tr plain isHeadingTag_def)
  have l: "length (trim ?long) > 40" "length (trim ''line 7'') \<le> 40"
    by (simp_all add: tr)
  from lead have la: "list_all
     (\<lambda>e. tagName e \<noteq> IMG
        \<and> (?skip {} (trim (textContent e))
           \<or> (\<not> isHeadingTag (tagName e) \<and> \<not> isStyledAsHeading e (trim (textContent e))
              \<and> length (trim (textContent e)) \<le> 40)))
     lead"
    unfolding list_all_iff .
  have run: "content (?loop (lead @ [pElement ?long, pElement ''short after'']))
      = [Item Text ?long, Item Text ''short after'']"
    unfolding lead_def by (simp add: initialState_def eval_text)
  with la k a b d e f g h l show ?thesis
    unfolding lead_def by blast
qed

text \<open>
  The claim C4 as it is stated fails at 40 characters and on a \<open>div\<close> that wraps block
  elements. A paragraph of exactly 40 characters is not substantial for the code: after
  six short lines it is pushed, as a seventh short node is, without \<open>foundFirstContent\<close>
  being set, so of two qualifying images after it the second is dropped; at the start of
  the loop it is passed over. A seventh short node that is a wrapping \<open>div\<close> is counted
  and not kept.
\<close>

theorem lead_in_suppression_counterexample:
  "length (trim ''A line of text with just forty chars, ok'') = 40
   \<and> \<not> foundFirstContent (scrapeLoop ''Real Author'' ''@real'' ''My Title'' initialState
        ((map pElement [''line 1'', ''line 2'', ''line 3'', ''line 4'', ''line 5'', ''line 6''])
         @ [pElement ''A line of text with just forty chars, ok'']))
   \<and> content (scrapeLoop ''Real Author'' ''@real'' ''My Title'' initialState
        ((map pElement [''line 1'', ''line 2'', ''line 3'', ''line 4'', ''line 5'', ''line 6''])
         @ [pElement ''A line of text with just forty chars, ok'',
            imgElement ''https://pbs.twimg.com/media/a.jpg'',
            imgElement ''https://pbs.twimg.com/media/b.jpg'']))
      = [Item Text ''A line of text with just forty chars, ok'',
         Item Image ''https://pbs.twimg.com/media/a.jpg'']
   \<and> content (scrapeLoop ''Real Author'' ''@real'' ''My Title'' initialState
        [pElement ''A line of text with just forty chars, ok''])
      = []
   \<and> scrapeLoop ''Real Author'' ''@real'' ''My Title'' initialState
        ((map pElement [''line 1'', ''line 2'', ''line 3'', ''line 4'', ''line 5'', ''line 6''])
         @ [wrapperDiv ''line 7''])
      = initialState\<lparr>skippedAfterTitle := 7\<rparr>
   \<and> content (scrapeLoop ''Real Author'' ''@real'' ''My Title'' initialState
        ((map pElement [''line 1'', ''line 2'', ''line 3'', ''line 4'', ''line 5'', ''line 6''])
         @ [wrapperDiv ''line 7'', pElement ''line 8'']))
      = [Item Text ''line 8'']"
  by (simp add: initialState_def eval_text handleImage_def imageQualifies_def)

section \<open>What decides whether an image is collected\<close>

lemma headerImageCount_scrapeElement:
  "headerImageCount (scrapeElement name handle ttl st el)
   = (if tagName el = IMG \<and> imageQualifies (seenImages st) (src el) \<and> \<not> foundFirstContent st
      then headerImageCount st + 1 else headerImageCount st)"
proof (cases "tagName el = IMG")
  case True
  then show ?thesis
    using handleImage_qualified(4) [of st "src el"] handleImage_unqualified [of st "src el"]
    by (cases "imageQualifies (seenImages st) (src el)") (simp_all add: scrapeElement_def)
next
  case False
  with handleText_images [of name handle ttl st el] show ?thesis
    by (simp add: scrapeElement_def)
qed

lemma scrapeLoop_snoc:
  "\<not> reachedFooter st \<Longrightarrow>
     scrapeLoop name handle ttl st (els @ [el])
       = scrapeElement name handle ttl (scrapeLoop name handle ttl st els) el"
  by (simp add: scrapeLoop_append scrapeLoop_Cons reachedFooter_scrapeLoop
      del: scrapeLoop.simps(2))

lemma ex_split_snoc:
  "(\<exists>p1 e p2. xs @ [x] = p1 @ e # p2 \<and> holds p1 e)
   = ((\<exists>p1 e p2. xs = p1 @ e # p2 \<and> holds p1 e) \<or> holds xs x)"
proof
  assume "\<exists>p1 e p2. xs @ [x] = p1 @ e # p2 \<and> holds p1 e"
  then obtain p1 e p2 where s: "xs @ [x] = p1 @ e # p2" and h: "holds p1 e"
    by blast
  show "(\<exists>p1 e p2. xs = p1 @ e # p2 \<and> holds p1 e) \<or> holds xs x"
  proof (cases p2 rule: rev_cases)
    case Nil
    with s have "xs = p1" "x = e" by simp_all
    with h show ?thesis by simp
  next
    case (snoc p2' y)
    with s have "xs @ [x] = (p1 @ e # p2') @ [y]" by simp
    then have "xs = p1 @ e # p2'" by (simp only: append1_eq_conv)
    with h show ?thesis by blast
  qed
next
  assume "(\<exists>p1 e p2. xs = p1 @ e # p2 \<and> holds p1 e) \<or> holds xs x"
  then show "\<exists>p1 e p2. xs @ [x] = p1 @ e # p2 \<and> holds p1 e"
  proof
    assume "\<exists>p1 e p2. xs = p1 @ e # p2 \<and> holds p1 e"
    then obtain p1 e p2 where "xs = p1 @ e # p2" and h: "holds p1 e"
      by blast
    then have "xs @ [x] = p1 @ e # (p2 @ [x])" by simp
    with h show ?thesis by blast
  next
    assume "holds xs x"
    moreover have "xs @ [x] = xs @ x # []" by simp
    ultimately show ?thesis by blast
  qed
qed

text \<open>
  \<open>foundFirstContent\<close> is set exactly by a text node that passes the tests of lines 496
  to 499 and is a heading or longer than 40 characters.
\<close>

lemma foundFirstContent_loop:
  assumes "\<not> reachedFooter st"
  shows "foundFirstContent (scrapeLoop name handle ttl st els)
   = (foundFirstContent st
      \<or> (\<exists>p1 e p2. els = p1 @ e # p2
           \<and> (tagName e \<noteq> IMG
              \<and> \<not> skipText name handle ttl (seenTexts (scrapeLoop name handle ttl st p1))
                    (trim (textContent e))
              \<and> (isHeadingTag (tagName e) \<or> isStyledAsHeading e (trim (textContent e))
                 \<or> length (trim (textContent e)) > 40))))"
proof (induction els rule: rev_induct)
  case Nil
  show ?case by simp
next
  case (snoc x xs)
  show ?case
    unfolding ex_split_snoc [of xs x "\<lambda>p1 e. tagName e \<noteq> IMG
              \<and> \<not> skipText name handle ttl (seenTexts (scrapeLoop name handle ttl st p1))
                    (trim (textContent e))
              \<and> (isHeadingTag (tagName e) \<or> isStyledAsHeading e (trim (textContent e))
                 \<or> length (trim (textContent e)) > 40)"]
      scrapeLoop_snoc [OF assms] foundFirstContent_scrapeElement snoc.IH
    by blast
qed

text \<open>
  \<open>headerImageCount\<close> counts the qualifying images met while \<open>foundFirstContent\<close> is not
  set.
\<close>

lemma headerImageCount_loop:
  assumes "\<not> reachedFooter st"
  shows "(headerImageCount (scrapeLoop name handle ttl st els) = 0)
   = (headerImageCount st = 0
      \<and> \<not> (\<exists>p1 e p2. els = p1 @ e # p2
           \<and> (tagName e = IMG
              \<and> imageQualifies (seenImages (scrapeLoop name handle ttl st p1)) (src e)
              \<and> \<not> foundFirstContent (scrapeLoop name handle ttl st p1))))"
proof (induction els rule: rev_induct)
  case Nil
  show ?case by simp
next
  case (snoc x xs)
  show ?case
    unfolding ex_split_snoc [of xs x "\<lambda>p1 e. tagName e = IMG
              \<and> imageQualifies (seenImages (scrapeLoop name handle ttl st p1)) (src e)
              \<and> \<not> foundFirstContent (scrapeLoop name handle ttl st p1)"]
      scrapeLoop_snoc [OF assms] headerImageCount_scrapeElement
    using snoc.IH by auto
qed

lemma images_invariant_loop:
  "distinct (filter (\<lambda>i. itype i = Image) (content st)) \<Longrightarrow>
   \<forall>s. Item Image s \<in> set (content st) \<longrightarrow> s \<in> seenImages st \<Longrightarrow>
     \<forall>s. Item Image s \<in> set (content (scrapeLoop name handle ttl st els))
         \<longrightarrow> s \<in> seenImages (scrapeLoop name handle ttl st els)"
proof (induction els arbitrary: st)
  case Nil
  then show ?case by simp
next
  case (Cons el els)
  show ?case
  proof (cases "reachedFooter st")
    case True
    with Cons.prems show ?thesis by simp
  next
    case False
    from images_invariant_step [OF Cons.prems, of name handle ttl el] Cons.IH False
    show ?thesis by (simp add: scrapeLoop_Cons del: scrapeLoop.simps)
  qed
qed

text \<open>A qualifying image after any elements, and whatever follows it.\<close>

lemma image_collected:
  assumes "tagName el = IMG"
    and "imageQualifies (seenImages (scrapeLoop name handle ttl initialState pre)) (src el)"
  shows "(Item Image (src el)
            \<in> set (content (scrapeLoop name handle ttl initialState (pre @ el # post))))
   = (foundFirstContent (scrapeLoop name handle ttl initialState pre)
      \<or> headerImageCount (scrapeLoop name handle ttl initialState pre) = 0)"
proof -
  let ?st = "scrapeLoop name handle ttl initialState pre"
  have init: "\<not> reachedFooter initialState" "content initialState = []"
    by (simp_all add: initialState_def)
  then have nf: "\<not> reachedFooter ?st"
    by (simp add: reachedFooter_scrapeLoop)
  from images_invariant_loop [of initialState name handle ttl pre] init(2)
  have "\<forall>s. Item Image s \<in> set (content ?st) \<longrightarrow> s \<in> seenImages ?st"
    by simp
  moreover from assms(2) have "src el \<notin> seenImages ?st"
    by (simp add: imageQualifies_def)
  ultimately have fresh: "Item Image (src el) \<notin> set (content ?st)"
    by blast
  note h = handleImage_qualified [OF assms(2)]
  have "scrapeLoop name handle ttl initialState (pre @ el # post)
      = scrapeLoop name handle ttl (handleImage ?st (src el)) post"
    using init(1) nf assms(1)
    by (simp add: scrapeLoop_append scrapeLoop_Cons scrapeElement_IMG del: scrapeLoop.simps(2))
  moreover have "src el \<in> seenImages (handleImage ?st (src el))"
    by (simp add: h(1))
  ultimately have "(Item Image (src el)
            \<in> set (content (scrapeLoop name handle ttl initialState (pre @ el # post))))
      = (Item Image (src el) \<in> set (content (handleImage ?st (src el))))"
    by (simp add: seen_image_not_emitted)
  with fresh show ?thesis by (simp add: h(2))
qed

section \<open>Images in the content returned\<close>

lemma filterItem_image: "itype it = Image \<Longrightarrow> filterItem found it = (True, found)"
  by (simp add: filterItem_def)

lemma filter_filterFrom_images:
  "filter (\<lambda>i. itype i = Image) (filterFrom found items)
     = filter (\<lambda>i. itype i = Image) items"
proof (induction items arbitrary: found)
  case Nil
  show ?case by simp
next
  case (Cons x xs)
  obtain keep found' where f: "filterItem found x = (keep, found')"
    by (cases "filterItem found x")
  show ?case
  proof (cases "itype x = Image")
    case True
    with f filterItem_image [OF True, of found] Cons.IH show ?thesis by simp
  next
    case False
    with f Cons.IH show ?thesis by simp
  qed
qed

lemma filterFrom_images:
  "(Item Image s \<in> set (filterFrom found items)) = (Item Image s \<in> set items)"
proof -
  have "(Item Image s \<in> set (filter (\<lambda>i. itype i = Image) (filterFrom found items)))
      = (Item Image s \<in> set (filter (\<lambda>i. itype i = Image) items))"
    by (simp only: filter_filterFrom_images)
  then show ?thesis by simp
qed

lemma image_returned:
  "(Item Image s \<in> set (classifyContent name handle ttl els))
   = (Item Image s \<in> set (content (scrapeLoop name handle ttl initialState els))
      \<and> \<not> (length (content (scrapeLoop name handle ttl initialState els)) > 1
           \<and> last (content (scrapeLoop name handle ttl initialState els)) = Item Image s))"
proof -
  let ?c = "content (scrapeLoop name handle ttl initialState els)"
  have "distinct (filter (\<lambda>i. itype i = Image) ?c)"
    by (rule images_invariant) (simp_all add: initialState_def)
  have r: "(Item Image s \<in> set (classifyContent name handle ttl els))
      = (Item Image s \<in> set (removeLastLine ?c))"
    by (simp add: classifyContent_def filterContent_def filterFrom_images)
  show ?thesis
  proof (cases "length ?c > 1")
    case False
    with r show ?thesis by (simp add: removeLastLine_def)
  next
    case True
    then have ne: "?c \<noteq> []" by auto
    then have split: "butlast ?c @ [last ?c] = ?c" by simp
    show ?thesis
    proof (cases "last ?c = Item Image s")
      case l: True
      from \<open>distinct (filter (\<lambda>i. itype i = Image) ?c)\<close>
      have "distinct (filter (\<lambda>i. itype i = Image) (butlast ?c @ [last ?c]))"
        by (simp only: split)
      with l have "Item Image s \<notin> set (butlast ?c)" by auto
      with True l r show ?thesis by (simp add: removeLastLine_def)
    next
      case l: False
      have "set ?c = set (butlast ?c) \<union> {last ?c}"
        by (subst split [symmetric]) (simp del: append_butlast_last_id)
      with l have "(Item Image s \<in> set (butlast ?c)) = (Item Image s \<in> set ?c)" by auto
      with True l r show ?thesis by (simp add: removeLastLine_def)
    qed
  qed
qed

lemma content_scrapeElement_prefix:
  "prefix (content st) (content (scrapeElement name handle ttl st el))"
proof (cases "tagName el = IMG")
  case True
  then show ?thesis
    using handleImage_qualified(2) [of st "src el"] handleImage_unqualified [of st "src el"]
    by (cases "imageQualifies (seenImages st) (src el)") (simp_all add: scrapeElement_def)
next
  case False
  with handleText_images [of name handle ttl st el] show ?thesis
    by (auto simp: scrapeElement_def)
qed

lemma content_scrapeLoop_prefix:
  "prefix (content st) (content (scrapeLoop name handle ttl st els))"
proof (induction els arbitrary: st)
  case Nil
  show ?case by simp
next
  case (Cons el els)
  show ?case
  proof (cases "reachedFooter st")
    case True
    then show ?thesis by simp
  next
    case False
    have "prefix (content st) (content (scrapeElement name handle ttl st el))"
      by (rule content_scrapeElement_prefix)
    also have "prefix \<dots> (content (scrapeLoop name handle ttl
        (scrapeElement name handle ttl st el) els))"
      by (rule Cons.IH)
    finally show ?thesis
      using False by (simp add: scrapeLoop_Cons del: scrapeLoop.simps)
  qed
qed

lemma seenImages_scrapeElement_subset:
  "seenImages (scrapeElement name handle ttl st el) \<subseteq> insert (src el) (seenImages st)"
proof (cases "tagName el = IMG")
  case True
  then show ?thesis
    using handleImage_qualified(1) [of st "src el"] handleImage_unqualified [of st "src el"]
    by (cases "imageQualifies (seenImages st) (src el)") (auto simp: scrapeElement_def)
next
  case False
  with handleText_images [of name handle ttl st el] show ?thesis
    by (auto simp: scrapeElement_def)
qed

lemma seenImages_scrapeLoop_subset:
  "seenImages (scrapeLoop name handle ttl st els) \<subseteq> seenImages st \<union> src ` set els"
proof (induction els arbitrary: st)
  case Nil
  show ?case by simp
next
  case (Cons el els)
  show ?case
  proof (cases "reachedFooter st")
    case True
    then show ?thesis by auto
  next
    case False
    from Cons.IH [of "scrapeElement name handle ttl st el"]
      seenImages_scrapeElement_subset [of name handle ttl st el] False
    show ?thesis
      by (auto simp: scrapeLoop_Cons simp del: scrapeLoop.simps)
  qed
qed

text \<open>
  Qualifying images with distinct sources at the head of the container: the first is
  returned, the others are not, whatever comes after them.
\<close>

lemma leading_images:
  assumes "\<forall>e\<in>set (i1 # imgs). tagName e = IMG \<and> imageQualifies {} (src e)"
    and "distinct (map src (i1 # imgs))"
  shows "Item Image (src i1) \<in> set (classifyContent name handle ttl (i1 # imgs @ rest))"
    and "\<forall>e\<in>set imgs. Item Image (src e)
           \<notin> set (content (scrapeLoop name handle ttl initialState (i1 # imgs @ rest)))"
    and "\<forall>e\<in>set imgs. Item Image (src e)
           \<notin> set (classifyContent name handle ttl (i1 # imgs @ rest))"
proof -
  let ?loop = "scrapeLoop name handle ttl initialState"
  have init: "\<not> reachedFooter initialState" "content initialState = []"
    "seenImages initialState = {}" "\<not> foundFirstContent initialState"
    "headerImageCount initialState = 0"
    by (simp_all add: initialState_def)
  from assms(1) init(3) have q1: "tagName i1 = IMG"
    "imageQualifies (seenImages (?loop [])) (src i1)"
    by simp_all
  from image_collected [OF q1, of "imgs @ rest"] init
  have in1: "Item Image (src i1) \<in> set (content (?loop (i1 # imgs @ rest)))"
    by simp
  have "?loop (i1 # imgs @ rest)
      = scrapeLoop name handle ttl (handleImage initialState (src i1)) (imgs @ rest)"
    using init(1) q1(1) by (simp add: scrapeLoop_Cons scrapeElement_IMG del: scrapeLoop.simps)
  moreover have "content (handleImage initialState (src i1)) = [Item Image (src i1)]"
    using handleImage_qualified(2) [of initialState "src i1"] q1(2) init by simp
  ultimately have "prefix [Item Image (src i1)] (content (?loop (i1 # imgs @ rest)))"
    using content_scrapeLoop_prefix [of "handleImage initialState (src i1)" name handle ttl
        "imgs @ rest"]
    by simp
  then obtain ys where c: "content (?loop (i1 # imgs @ rest)) = Item Image (src i1) # ys"
    by (auto simp: prefix_def)
  have "distinct (filter (\<lambda>i. itype i = Image) (content (?loop (i1 # imgs @ rest))))"
    by (rule images_invariant) (simp_all add: initialState_def)
  with c have "Item Image (src i1) \<notin> set ys" by simp
  then have "ys \<noteq> [] \<longrightarrow> last ys \<noteq> Item Image (src i1)"
    using last_in_set [of ys] by metis
  with c have "\<not> (length (content (?loop (i1 # imgs @ rest))) > 1
      \<and> last (content (?loop (i1 # imgs @ rest))) = Item Image (src i1))"
    by auto
  with in1 show "Item Image (src i1) \<in> set (classifyContent name handle ttl (i1 # imgs @ rest))"
    by (simp only: image_returned simp_thms)
  show others: "\<forall>e\<in>set imgs. Item Image (src e) \<notin> set (content (?loop (i1 # imgs @ rest)))"
  proof
    fix e
    assume e: "e \<in> set imgs"
    then obtain a b where split: "imgs = a @ e # b"
      by (auto dest: split_list)
    let ?st = "?loop (i1 # a)"
    from assms(2) split have "src e \<notin> src ` set (i1 # a)"
      by auto
    with seenImages_scrapeLoop_subset [of name handle ttl initialState "i1 # a"] init(3)
    have "src e \<notin> seenImages ?st" by blast
    moreover from assms(1) e have te: "tagName e = IMG" and "imageQualifies {} (src e)"
      by simp_all
    ultimately have qe: "imageQualifies (seenImages ?st) (src e)"
      by (subst imageQualifies_seen) simp
    from assms(1) split have all: "\<forall>y\<in>set (i1 # a). tagName y = IMG"
      by simp
    have "\<not> foundFirstContent ?st"
    proof
      assume "foundFirstContent ?st"
      with foundFirstContent_loop [OF init(1), of name handle ttl "i1 # a"] init(4)
      obtain p1 y p2 where "i1 # a = p1 @ y # p2" "tagName y \<noteq> IMG"
        by blast
      then have "y \<in> set (i1 # a)" by (metis in_set_conv_decomp)
      with all \<open>tagName y \<noteq> IMG\<close> show False by blast
    qed
    moreover have "headerImageCount ?st \<noteq> 0"
    proof
      assume "headerImageCount ?st = 0"
      with headerImageCount_loop [OF init(1), of name handle ttl "i1 # a"]
      have "\<not> (\<exists>p1 y p2. i1 # a = p1 @ y # p2
           \<and> (tagName y = IMG
              \<and> imageQualifies (seenImages (?loop p1)) (src y)
              \<and> \<not> foundFirstContent (?loop p1)))"
        by simp
      moreover have "i1 # a = [] @ i1 # a" by simp
      ultimately have "\<not> (tagName i1 = IMG
              \<and> imageQualifies (seenImages (?loop [])) (src i1)
              \<and> \<not> foundFirstContent (?loop []))"
        by blast
      with q1 init(4) show False by simp
    qed
    ultimately have "Item Image (src e) \<notin> set (content (?loop ((i1 # a) @ e # b @ rest)))"
      by (simp only: image_collected [OF te qe] simp_thms)
    with split show "Item Image (src e) \<notin> set (content (?loop (i1 # imgs @ rest)))"
      by simp
  qed
  then show "\<forall>e\<in>set imgs. Item Image (src e)
           \<notin> set (classifyContent name handle ttl (i1 # imgs @ rest))"
    by (simp add: image_returned)
qed

text \<open>
  A text node that sets \<open>foundFirstContent\<close> after the first image: every image is
  collected, and the last item collected is not returned.
\<close>

lemma text_between_images:
  assumes "\<forall>e\<in>set (i1 # imgs). tagName e = IMG \<and> imageQualifies {} (src e)"
    and "distinct (map src (i1 # imgs))"
    and "tagName x \<noteq> IMG" and "\<not> skipText name handle ttl {} (trim (textContent x))"
    and "isHeadingTag (tagName x) \<or> isStyledAsHeading x (trim (textContent x))
         \<or> length (trim (textContent x)) > 40"
  shows "content (scrapeLoop name handle ttl initialState (i1 # x # imgs))
          = Item Image (src i1)
            # (if hasBlockChildren x \<and> tagName x = DIV then []
               else [Item Text
                       (if isHeadingTag (tagName x) \<or> isStyledAsHeading x (trim (textContent x))
                        then ''## '' @ trim (textContent x) else trim (textContent x))])
            @ map (\<lambda>e. Item Image (src e)) imgs"
    and "filter (\<lambda>i. itype i = Image) (classifyContent name handle ttl (i1 # x # imgs))
          = Item Image (src i1) # map (\<lambda>e. Item Image (src e)) (butlast imgs)"
proof -
  have init: "\<not> foundFirstContent initialState" "\<not> reachedFooter initialState"
    "seenImages initialState = {}" "headerImageCount initialState = 0"
    "content initialState = []" "seenTexts initialState = {}"
    by (simp_all add: initialState_def)
  let ?st1 = "handleImage initialState (src i1)"
  let ?st2 = "handleText name handle ttl ?st1 x"
  let ?tx = "if hasBlockChildren x \<and> tagName x = DIV then []
               else [Item Text
                       (if isHeadingTag (tagName x) \<or> isStyledAsHeading x (trim (textContent x))
                        then ''## '' @ trim (textContent x) else trim (textContent x))]"
  from assms(1) init(3) have q: "imageQualifies (seenImages initialState) (src i1)"
    by simp
  note h = handleImage_qualified [OF q]
  from assms(4) h(5) init(6)
  have unskipped: "\<not> skipText name handle ttl (seenTexts ?st1) (trim (textContent x))"
    by simp
  note t = handleText_substantial [OF unskipped assms(5)]
  have st2: "foundFirstContent ?st2" "seenImages ?st2 = {src i1}"
    "content ?st2 = Item Image (src i1) # ?tx"
    using h init by (simp_all add: t)
  have nf: "\<not> reachedFooter ?st1" "\<not> reachedFooter ?st2"
    using init(2) by (simp_all add: reachedFooter_handleText reachedFooter_handleImage)
  from assms have rest: "\<forall>e\<in>set imgs. tagName e = IMG \<and> imageQualifies {} (src e)"
    "distinct (map src imgs)" "set (map src imgs) \<inter> seenImages ?st2 = {}"
    by (auto simp: st2(2))
  from assms(1) have "tagName i1 = IMG" by simp
  with assms(3) init(2) nf
  have "scrapeLoop name handle ttl initialState (i1 # x # imgs)
      = scrapeLoop name handle ttl ?st2 imgs"
    by (simp add: scrapeLoop_Cons scrapeElement_IMG scrapeElement_text del: scrapeLoop.simps)
  with images_after_content [OF st2(1) nf(2) rest, of name handle ttl] st2(3)
  show c: "content (scrapeLoop name handle ttl initialState (i1 # x # imgs))
      = Item Image (src i1) # ?tx @ map (\<lambda>e. Item Image (src e)) imgs"
    by simp
  have tx: "filter (\<lambda>i. itype i = Image) ?tx = []" "length ?tx \<le> 1"
    by simp_all
  have "filter (\<lambda>i. itype i = Image)
      (removeLastLine (Item Image (src i1) # ?tx @ map (\<lambda>e. Item Image (src e)) imgs))
      = Item Image (src i1) # map (\<lambda>e. Item Image (src e)) (butlast imgs)"
  proof (cases imgs rule: rev_cases)
    case Nil
    then show ?thesis by (simp add: removeLastLine_def)
  next
    case (snoc ys y)
    then have "removeLastLine (Item Image (src i1) # ?tx @ map (\<lambda>e. Item Image (src e)) imgs)
        = Item Image (src i1) # ?tx @ map (\<lambda>e. Item Image (src e)) ys"
      by (simp add: removeLastLine_def butlast_append)
    with snoc tx(1) show ?thesis
      by (simp add: filter_map comp_def)
  qed
  then show "filter (\<lambda>i. itype i = Image) (classifyContent name handle ttl (i1 # x # imgs))
          = Item Image (src i1) # map (\<lambda>e. Item Image (src e)) (butlast imgs)"
    by (simp only: classifyContent_def filterContent_def filter_filterFrom_images c)
qed

text \<open>
  C5, as the code has it. The test that caps the images is the flag \<open>foundFirstContent\<close>,
  which is set exactly when a text node has been reached that passes the tests of lines
  496 to 499 and is a heading or longer than 40 characters, whether the node is pushed
  or not. A qualifying image is collected when the flag is set or when no qualifying
  image came before it while the flag was not set; otherwise it is dropped, whatever
  follows. An image that is collected is returned unless it is the last item collected
  of more than one. So of qualifying images with distinct sources at the head of the
  container the first is returned and the others are not; and with such a text node
  after the first image all of them are collected, in order, and all but the last one
  are returned.
\<close>

theorem pre_content_image_cap:
  "(tagName el = IMG
      \<and> imageQualifies (seenImages (scrapeLoop name handle ttl initialState pre)) (src el)
     \<longrightarrow> (Item Image (src el)
            \<in> set (content (scrapeLoop name handle ttl initialState (pre @ el # post))))
         = (foundFirstContent (scrapeLoop name handle ttl initialState pre)
            \<or> headerImageCount (scrapeLoop name handle ttl initialState pre) = 0))
   \<and> foundFirstContent (scrapeLoop name handle ttl initialState pre)
       = (\<exists>p1 e p2. pre = p1 @ e # p2
            \<and> (tagName e \<noteq> IMG
               \<and> \<not> skipText name handle ttl
                     (seenTexts (scrapeLoop name handle ttl initialState p1))
                     (trim (textContent e))
               \<and> (isHeadingTag (tagName e) \<or> isStyledAsHeading e (trim (textContent e))
                  \<or> length (trim (textContent e)) > 40)))
   \<and> (headerImageCount (scrapeLoop name handle ttl initialState pre) = 0)
       = (\<not> (\<exists>p1 e p2. pre = p1 @ e # p2
            \<and> (tagName e = IMG
               \<and> imageQualifies (seenImages (scrapeLoop name handle ttl initialState p1))
                    (src e)
               \<and> \<not> foundFirstContent (scrapeLoop name handle ttl initialState p1))))
   \<and> (Item Image s \<in> set (classifyContent name handle ttl els))
       = (Item Image s \<in> set (content (scrapeLoop name handle ttl initialState els))
          \<and> \<not> (length (content (scrapeLoop name handle ttl initialState els)) > 1
               \<and> last (content (scrapeLoop name handle ttl initialState els)) = Item Image s))
   \<and> ((\<forall>e\<in>set (i1 # imgs). tagName e = IMG \<and> imageQualifies {} (src e))
       \<and> distinct (map src (i1 # imgs))
      \<longrightarrow> content (scrapeLoop name handle ttl initialState (i1 # imgs)) = [Item Image (src i1)]
          \<and> classifyContent name handle ttl (i1 # imgs) = [Item Image (src i1)]
          \<and> Item Image (src i1) \<in> set (classifyContent name handle ttl (i1 # imgs @ rest))
          \<and> (\<forall>e\<in>set imgs.
                Item Image (src e) \<notin> set (classifyContent name handle ttl (i1 # imgs @ rest))))
   \<and> ((\<forall>e\<in>set (i1 # imgs). tagName e = IMG \<and> imageQualifies {} (src e))
       \<and> distinct (map src (i1 # imgs))
       \<and> tagName x \<noteq> IMG \<and> \<not> skipText name handle ttl {} (trim (textContent x))
       \<and> (isHeadingTag (tagName x) \<or> isStyledAsHeading x (trim (textContent x))
           \<or> length (trim (textContent x)) > 40)
      \<longrightarrow> content (scrapeLoop name handle ttl initialState (i1 # x # imgs))
            = Item Image (src i1)
              # (if hasBlockChildren x \<and> tagName x = DIV then []
                 else [Item Text
                         (if isHeadingTag (tagName x)
                             \<or> isStyledAsHeading x (trim (textContent x))
                          then ''## '' @ trim (textContent x) else trim (textContent x))])
              @ map (\<lambda>e. Item Image (src e)) imgs
          \<and> filter (\<lambda>i. itype i = Image) (classifyContent name handle ttl (i1 # x # imgs))
            = Item Image (src i1) # map (\<lambda>e. Item Image (src e)) (butlast imgs))
   \<and> (imageQualifies (seenImages st) s
      \<longrightarrow> content (handleImage st s)
          = content st @ (if foundFirstContent st \<or> headerImageCount st = 0
                          then [Item Image s] else []))
   \<and> (tagName el = IMG \<and> \<not> imageQualifies (seenImages st) (src el)
      \<longrightarrow> scrapeElement name handle ttl st el = st)
   \<and> (tagName el = IMG
       \<and> imageQualifies (seenImages (scrapeLoop name handle ttl initialState pre)) (src el)
       \<and> \<not> foundFirstContent (scrapeLoop name handle ttl initialState pre)
      \<longrightarrow> (Item Image (src el)
             \<in> set (content (scrapeLoop name handle ttl initialState (pre @ el # post))))
          = (\<not> (\<exists>p1 e p2. pre = p1 @ e # p2
               \<and> (tagName e = IMG
                  \<and> imageQualifies (seenImages (scrapeLoop name handle ttl initialState p1))
                       (src e)))))
   \<and> (tagName el = IMG
       \<and> imageQualifies (seenImages (scrapeLoop name handle ttl initialState pre)) (src el)
       \<and> foundFirstContent (scrapeLoop name handle ttl initialState pre)
      \<longrightarrow> Item Image (src el)
            \<in> set (content (scrapeLoop name handle ttl initialState (pre @ el # post))))"
proof -
  let ?loop = "scrapeLoop name handle ttl initialState"
  have init: "\<not> foundFirstContent initialState" "\<not> reachedFooter initialState"
    "seenImages initialState = {}" "headerImageCount initialState = 0"
    "content initialState = []"
    by (simp_all add: initialState_def)
  have c1: "tagName el = IMG \<and> imageQualifies (seenImages (?loop pre)) (src el)
     \<longrightarrow> (Item Image (src el) \<in> set (content (?loop (pre @ el # post))))
         = (foundFirstContent (?loop pre) \<or> headerImageCount (?loop pre) = 0)"
  proof (intro impI, elim conjE)
    assume "tagName el = IMG" and "imageQualifies (seenImages (?loop pre)) (src el)"
    then show "(Item Image (src el) \<in> set (content (?loop (pre @ el # post))))
         = (foundFirstContent (?loop pre) \<or> headerImageCount (?loop pre) = 0)"
      by (rule image_collected)
  qed
  have c2: "foundFirstContent (?loop pre)
       = (\<exists>p1 e p2. pre = p1 @ e # p2
            \<and> (tagName e \<noteq> IMG
               \<and> \<not> skipText name handle ttl (seenTexts (?loop p1)) (trim (textContent e))
               \<and> (isHeadingTag (tagName e) \<or> isStyledAsHeading e (trim (textContent e))
                  \<or> length (trim (textContent e)) > 40)))"
    using foundFirstContent_loop [OF init(2), of name handle ttl pre] init(1) by simp
  have c3: "(headerImageCount (?loop pre) = 0)
       = (\<not> (\<exists>p1 e p2. pre = p1 @ e # p2
            \<and> (tagName e = IMG
               \<and> imageQualifies (seenImages (?loop p1)) (src e)
               \<and> \<not> foundFirstContent (?loop p1))))"
    using headerImageCount_loop [OF init(2), of name handle ttl pre] init(4) by simp
  note c4 = image_returned [of s name handle ttl els]
  have c5: "(\<forall>e\<in>set (i1 # imgs). tagName e = IMG \<and> imageQualifies {} (src e))
       \<and> distinct (map src (i1 # imgs))
      \<longrightarrow> content (?loop (i1 # imgs)) = [Item Image (src i1)]
          \<and> classifyContent name handle ttl (i1 # imgs) = [Item Image (src i1)]
          \<and> Item Image (src i1) \<in> set (classifyContent name handle ttl (i1 # imgs @ rest))
          \<and> (\<forall>e\<in>set imgs.
                Item Image (src e) \<notin> set (classifyContent name handle ttl (i1 # imgs @ rest)))"
  proof (intro impI, elim conjE)
    assume h: "\<forall>e\<in>set (i1 # imgs). tagName e = IMG \<and> imageQualifies {} (src e)"
      "distinct (map src (i1 # imgs))"
    have alone: "content (?loop (i1 # imgs)) = [Item Image (src i1)]"
      using images_before_content [OF init(1,2) h, of name handle ttl] init by simp
    then have "classifyContent name handle ttl (i1 # imgs) = [Item Image (src i1)]"
      by (simp add: classifyContent_def removeLastLine_def filterContent_def filterItem_def)
    with alone leading_images(1,3) [OF h, of name handle ttl rest]
    show "content (?loop (i1 # imgs)) = [Item Image (src i1)]
          \<and> classifyContent name handle ttl (i1 # imgs) = [Item Image (src i1)]
          \<and> Item Image (src i1) \<in> set (classifyContent name handle ttl (i1 # imgs @ rest))
          \<and> (\<forall>e\<in>set imgs.
                Item Image (src e) \<notin> set (classifyContent name handle ttl (i1 # imgs @ rest)))"
      by blast
  qed
  have c6: "(\<forall>e\<in>set (i1 # imgs). tagName e = IMG \<and> imageQualifies {} (src e))
       \<and> distinct (map src (i1 # imgs))
       \<and> tagName x \<noteq> IMG \<and> \<not> skipText name handle ttl {} (trim (textContent x))
       \<and> (isHeadingTag (tagName x) \<or> isStyledAsHeading x (trim (textContent x))
           \<or> length (trim (textContent x)) > 40)
      \<longrightarrow> content (?loop (i1 # x # imgs))
            = Item Image (src i1)
              # (if hasBlockChildren x \<and> tagName x = DIV then []
                 else [Item Text
                         (if isHeadingTag (tagName x)
                             \<or> isStyledAsHeading x (trim (textContent x))
                          then ''## '' @ trim (textContent x) else trim (textContent x))])
              @ map (\<lambda>e. Item Image (src e)) imgs
          \<and> filter (\<lambda>i. itype i = Image) (classifyContent name handle ttl (i1 # x # imgs))
            = Item Image (src i1) # map (\<lambda>e. Item Image (src e)) (butlast imgs)"
    by (intro impI conjI; elim conjE) (rule text_between_images; assumption)+
  have c7: "imageQualifies (seenImages st) s
      \<longrightarrow> content (handleImage st s)
          = content st @ (if foundFirstContent st \<or> headerImageCount st = 0
                          then [Item Image s] else [])"
    by (intro impI) (rule handleImage_qualified(2))
  have c8: "tagName el = IMG \<and> \<not> imageQualifies (seenImages st) (src el)
      \<longrightarrow> scrapeElement name handle ttl st el = st"
    by (simp add: scrapeElement_IMG handleImage_unqualified)
  have c9: "tagName el = IMG \<and> imageQualifies (seenImages (?loop pre)) (src el)
       \<and> \<not> foundFirstContent (?loop pre)
      \<longrightarrow> (Item Image (src el) \<in> set (content (?loop (pre @ el # post))))
          = (\<not> (\<exists>p1 e p2. pre = p1 @ e # p2
               \<and> (tagName e = IMG \<and> imageQualifies (seenImages (?loop p1)) (src e))))"
  proof (intro impI, elim conjE)
    assume el: "tagName el = IMG" "imageQualifies (seenImages (?loop pre)) (src el)"
      and nf: "\<not> foundFirstContent (?loop pre)"
    have before: "\<not> foundFirstContent (?loop p1)" if "pre = p1 @ e # p2" for p1 e p2
    proof
      assume "foundFirstContent (?loop p1)"
      then have "foundFirstContent (scrapeLoop name handle ttl (?loop p1) (e # p2))"
        by (rule foundFirstContent_scrapeLoop)
      with that nf init(2) show False
        by (simp add: scrapeLoop_append del: scrapeLoop.simps)
    qed
    from image_collected [OF el, of post] nf
    have "(Item Image (src el) \<in> set (content (?loop (pre @ el # post))))
        = (headerImageCount (?loop pre) = 0)"
      by simp
    also have "\<dots> = (\<not> (\<exists>p1 e p2. pre = p1 @ e # p2
            \<and> (tagName e = IMG
               \<and> imageQualifies (seenImages (?loop p1)) (src e)
               \<and> \<not> foundFirstContent (?loop p1))))"
      by (rule c3)
    also from before have "\<dots> = (\<not> (\<exists>p1 e p2. pre = p1 @ e # p2
            \<and> (tagName e = IMG \<and> imageQualifies (seenImages (?loop p1)) (src e))))"
      by blast
    finally show "(Item Image (src el) \<in> set (content (?loop (pre @ el # post))))
          = (\<not> (\<exists>p1 e p2. pre = p1 @ e # p2
               \<and> (tagName e = IMG \<and> imageQualifies (seenImages (?loop p1)) (src e))))" .
  qed
  have c10: "tagName el = IMG \<and> imageQualifies (seenImages (?loop pre)) (src el)
       \<and> foundFirstContent (?loop pre)
      \<longrightarrow> Item Image (src el) \<in> set (content (?loop (pre @ el # post)))"
  proof (intro impI, elim conjE)
    assume el: "tagName el = IMG" "imageQualifies (seenImages (?loop pre)) (src el)"
      and f: "foundFirstContent (?loop pre)"
    from f have "foundFirstContent (?loop pre) \<or> headerImageCount (?loop pre) = 0"
      by (rule disjI1)
    then show "Item Image (src el) \<in> set (content (?loop (pre @ el # post)))"
      by (rule image_collected [OF el, THEN iffD2])
  qed
  from c1 c2 c3 c4 c5 c6 c7 c8 c9 c10 show ?thesis
    by (intro conjI) assumption+
qed

theorem pre_content_image_cap_witness:
  "list_all (\<lambda>e. tagName e = IMG \<and> imageQualifies {} (src e))
     [imgElement ''https://pbs.twimg.com/media/a.jpg'',
      imgElement ''https://pbs.twimg.com/media/b.jpg'',
      imgElement ''https://pbs.twimg.com/media/c.jpg'']
   \<and> distinct (map src
        [imgElement ''https://pbs.twimg.com/media/a.jpg'',
         imgElement ''https://pbs.twimg.com/media/b.jpg'',
         imgElement ''https://pbs.twimg.com/media/c.jpg''])
   \<and> content (scrapeLoop ''Real Author'' ''@real'' ''My Title'' initialState
        [imgElement ''https://pbs.twimg.com/media/a.jpg'',
         imgElement ''https://pbs.twimg.com/media/b.jpg'',
         imgElement ''https://pbs.twimg.com/media/c.jpg''])
      = [Item Image ''https://pbs.twimg.com/media/a.jpg'']
   \<and> classifyContent ''Real Author'' ''@real'' ''My Title''
        [imgElement ''https://pbs.twimg.com/media/a.jpg'',
         imgElement ''https://pbs.twimg.com/media/b.jpg'',
         imgElement ''https://pbs.twimg.com/media/c.jpg'']
      = [Item Image ''https://pbs.twimg.com/media/a.jpg'']
   \<and> Item Image ''https://pbs.twimg.com/media/a.jpg''
      \<in> set (classifyContent ''Real Author'' ''@real'' ''My Title''
        [imgElement ''https://pbs.twimg.com/media/a.jpg'',
         imgElement ''https://pbs.twimg.com/media/b.jpg'',
         imgElement ''https://pbs.twimg.com/media/c.jpg'',
         h2Element ''Introduction'',
         pElement ''The closing paragraph of the article, long enough.''])
   \<and> Item Image ''https://pbs.twimg.com/media/b.jpg''
      \<notin> set (classifyContent ''Real Author'' ''@real'' ''My Title''
        [imgElement ''https://pbs.twimg.com/media/a.jpg'',
         imgElement ''https://pbs.twimg.com/media/b.jpg'',
         imgElement ''https://pbs.twimg.com/media/c.jpg'',
         h2Element ''Introduction'',
         pElement ''The closing paragraph of the article, long enough.''])
   \<and> tagName (h2Element ''Introduction'') \<noteq> IMG
   \<and> \<not> skipText ''Real Author'' ''@real'' ''My Title'' {}
        (trim (textContent (h2Element ''Introduction'')))
   \<and> isHeadingTag (tagName (h2Element ''Introduction''))
   \<and> content (scrapeLoop ''Real Author'' ''@real'' ''My Title'' initialState
        [imgElement ''https://pbs.twimg.com/media/a.jpg'',
         h2Element ''Introduction'',
         imgElement ''https://pbs.twimg.com/media/b.jpg'',
         imgElement ''https://pbs.twimg.com/media/c.jpg''])
      = [Item Image ''https://pbs.twimg.com/media/a.jpg'',
         Item Text ''## Introduction'',
         Item Image ''https://pbs.twimg.com/media/b.jpg'',
         Item Image ''https://pbs.twimg.com/media/c.jpg'']
   \<and> filter (\<lambda>i. itype i = Image) (classifyContent ''Real Author'' ''@real'' ''My Title''
        [imgElement ''https://pbs.twimg.com/media/a.jpg'',
         h2Element ''Introduction'',
         imgElement ''https://pbs.twimg.com/media/b.jpg'',
         imgElement ''https://pbs.twimg.com/media/c.jpg''])
      = [Item Image ''https://pbs.twimg.com/media/a.jpg'',
         Item Image ''https://pbs.twimg.com/media/b.jpg'']
   \<and> tagName (imgElement ''https://pbs.twimg.com/media/b.jpg'') = IMG
   \<and> imageQualifies
        (seenImages (scrapeLoop ''Real Author'' ''@real'' ''My Title'' initialState
           [imgElement ''https://pbs.twimg.com/media/a.jpg'', h2Element ''Introduction'']))
        (src (imgElement ''https://pbs.twimg.com/media/b.jpg''))
   \<and> foundFirstContent (scrapeLoop ''Real Author'' ''@real'' ''My Title'' initialState
        [imgElement ''https://pbs.twimg.com/media/a.jpg'', h2Element ''Introduction''])
   \<and> Item Image (src (imgElement ''https://pbs.twimg.com/media/b.jpg''))
      \<in> set (content (scrapeLoop ''Real Author'' ''@real'' ''My Title'' initialState
        [imgElement ''https://pbs.twimg.com/media/a.jpg'',
         h2Element ''Introduction'',
         imgElement ''https://pbs.twimg.com/media/b.jpg'',
         imgElement ''https://pbs.twimg.com/media/c.jpg'']))
   \<and> imageQualifies
        (seenImages (scrapeLoop ''Real Author'' ''@real'' ''My Title'' initialState
           [pElement ''My Title'', imgElement ''https://pbs.twimg.com/media/a.jpg'']))
        (src (imgElement ''https://pbs.twimg.com/media/b.jpg''))
   \<and> \<not> foundFirstContent (scrapeLoop ''Real Author'' ''@real'' ''My Title'' initialState
        [pElement ''My Title'', imgElement ''https://pbs.twimg.com/media/a.jpg''])
   \<and> headerImageCount (scrapeLoop ''Real Author'' ''@real'' ''My Title'' initialState
        [pElement ''My Title'', imgElement ''https://pbs.twimg.com/media/a.jpg'']) = 1
   \<and> Item Image (src (imgElement ''https://pbs.twimg.com/media/b.jpg''))
      \<notin> set (content (scrapeLoop ''Real Author'' ''@real'' ''My Title'' initialState
        [pElement ''My Title'',
         imgElement ''https://pbs.twimg.com/media/a.jpg'',
         imgElement ''https://pbs.twimg.com/media/b.jpg'',
         h2Element ''Introduction'']))"
proof -
  let ?a = "''https://pbs.twimg.com/media/a.jpg''"
  let ?b = "''https://pbs.twimg.com/media/b.jpg''"
  let ?c = "''https://pbs.twimg.com/media/c.jpg''"
  let ?tail = "pElement ''The closing paragraph of the article, long enough.''"
  let ?loop = "scrapeLoop ''Real Author'' ''@real'' ''My Title'' initialState"
  let ?classify = "classifyContent ''Real Author'' ''@real'' ''My Title''"
  have q: "imageQualifies {} ?a" "imageQualifies {} ?b" "imageQualifies {} ?c"
    "imageQualifies {?a} ?b"
    by (simp_all add: imageQualifies_def)
  have srcs: "src (imgElement ?a) = ?a" "src (imgElement ?b) = ?b" "src (imgElement ?c) = ?c"
    by (simp_all add: imgElement_def)
  have tb: "tagName (imgElement ?b) = IMG"
    by (simp add: imgElement_def)
  from q have imgs: "\<forall>e\<in>set (imgElement ?a # [imgElement ?b, imgElement ?c]).
      tagName e = IMG \<and> imageQualifies {} (src e)"
    by (simp add: imgElement_def)
  have dist: "distinct (map src (imgElement ?a # [imgElement ?b, imgElement ?c]))"
    by (simp add: imgElement_def)
  have tr: "trim (textContent (h2Element ''Introduction'')) = ''Introduction''"
    by (simp add: h2Element_def trim_def isWhiteSpace_def)
  have x: "tagName (h2Element ''Introduction'') \<noteq> IMG"
    "\<not> skipText ''Real Author'' ''@real'' ''My Title'' {}
        (trim (textContent (h2Element ''Introduction'')))"
    "isHeadingTag (tagName (h2Element ''Introduction''))"
    unfolding tr
    by (simp_all add: h2Element_def skipText_def skipPatterns_def canonicalize_Char
        testHandleOnly_def testDateStamp_def isHeadingTag_def)
  have nodiv: "\<not> (hasBlockChildren (h2Element ''Introduction'')
      \<and> tagName (h2Element ''Introduction'') = DIV)"
    by (simp add: h2Element_def)
  have st1: "seenImages (?loop [pElement ''My Title'', imgElement ?a]) = {?a}"
    "\<not> foundFirstContent (?loop [pElement ''My Title'', imgElement ?a])"
    "headerImageCount (?loop [pElement ''My Title'', imgElement ?a]) = 1"
    using q(1)
    by (simp_all add: initialState_def eval_text handleImage_def)
  have st2: "seenImages (?loop [imgElement ?a, h2Element ''Introduction'']) = {?a}"
    "foundFirstContent (?loop [imgElement ?a, h2Element ''Introduction''])"
    using q(1)
    by (simp_all add: initialState_def eval_text handleImage_def)
  note alone = pre_content_image_cap [where ?i1.0 = "imgElement ?a"
      and imgs = "[imgElement ?b, imgElement ?c]"
      and rest = "[h2Element ''Introduction'', ?tail]"
      and name = "''Real Author''" and handle = "''@real''" and ttl = "''My Title''",
      THEN conjunct2, THEN conjunct2, THEN conjunct2, THEN conjunct2, THEN conjunct1, THEN mp,
          OF conjI, OF imgs dist]
  note between = pre_content_image_cap [where ?i1.0 = "imgElement ?a"
      and imgs = "[imgElement ?b, imgElement ?c]" and x = "h2Element ''Introduction''"
      and name = "''Real Author''" and handle = "''@real''" and ttl = "''My Title''",
      THEN conjunct2, THEN conjunct2, THEN conjunct2, THEN conjunct2, THEN conjunct2,
          THEN conjunct1, THEN mp]
  note kept = pre_content_image_cap [where pre = "[imgElement ?a, h2Element ''Introduction'']"
      and el = "imgElement ?b" and post = "[imgElement ?c]"
      and name = "''Real Author''" and handle = "''@real''" and ttl = "''My Title''",
      THEN conjunct1, THEN mp, unfolded append.simps]
  note dropped = pre_content_image_cap [where pre = "[pElement ''My Title'', imgElement ?a]"
      and el = "imgElement ?b" and post = "[h2Element ''Introduction'']"
      and name = "''Real Author''" and handle = "''@real''" and ttl = "''My Title''",
      THEN conjunct1, THEN mp, unfolded append.simps]
  have a: "content (?loop [imgElement ?a, imgElement ?b, imgElement ?c]) = [Item Image ?a]"
    "?classify [imgElement ?a, imgElement ?b, imgElement ?c] = [Item Image ?a]"
    "Item Image ?a \<in> set (?classify
        [imgElement ?a, imgElement ?b, imgElement ?c, h2Element ''Introduction'', ?tail])"
    "Item Image ?b \<notin> set (?classify
        [imgElement ?a, imgElement ?b, imgElement ?c, h2Element ''Introduction'', ?tail])"
    using alone by (simp_all add: srcs del: scrapeLoop.simps)
  from imgs dist x have "(\<forall>e\<in>set (imgElement ?a # [imgElement ?b, imgElement ?c]).
          tagName e = IMG \<and> imageQualifies {} (src e))
       \<and> distinct (map src (imgElement ?a # [imgElement ?b, imgElement ?c]))
       \<and> tagName (h2Element ''Introduction'') \<noteq> IMG
       \<and> \<not> skipText ''Real Author'' ''@real'' ''My Title'' {}
            (trim (textContent (h2Element ''Introduction'')))
       \<and> (isHeadingTag (tagName (h2Element ''Introduction''))
           \<or> isStyledAsHeading (h2Element ''Introduction'')
                (trim (textContent (h2Element ''Introduction'')))
           \<or> length (trim (textContent (h2Element ''Introduction''))) > 40)"
    by blast
  from between [OF this] x(3) nodiv
  have b: "content (?loop [imgElement ?a, h2Element ''Introduction'', imgElement ?b,
        imgElement ?c])
      = [Item Image ?a, Item Text ''## Introduction'', Item Image ?b, Item Image ?c]"
    "filter (\<lambda>i. itype i = Image) (?classify
        [imgElement ?a, h2Element ''Introduction'', imgElement ?b, imgElement ?c])
      = [Item Image ?a, Item Image ?b]"
    by (simp_all add: tr srcs del: scrapeLoop.simps)
  from q(4) have q2: "imageQualifies
      (seenImages (?loop [imgElement ?a, h2Element ''Introduction'']))
      (src (imgElement ?b))"
    by (simp only: st2 srcs)
  from st2(2)
  have "foundFirstContent (?loop [imgElement ?a, h2Element ''Introduction''])
      \<or> headerImageCount (?loop [imgElement ?a, h2Element ''Introduction'']) = 0"
    by (rule disjI1)
  then have c: "Item Image (src (imgElement ?b))
      \<in> set (content (?loop [imgElement ?a, h2Element ''Introduction'', imgElement ?b,
        imgElement ?c]))"
    by (rule kept [OF conjI, OF tb q2, THEN iffD2])
  from q(4) have q1: "imageQualifies
      (seenImages (?loop [pElement ''My Title'', imgElement ?a]))
      (src (imgElement ?b))"
    by (simp only: st1 srcs)
  have d: "Item Image (src (imgElement ?b))
      \<notin> set (content (?loop [pElement ''My Title'', imgElement ?a, imgElement ?b,
        h2Element ''Introduction'']))"
  proof
    assume "Item Image (src (imgElement ?b))
      \<in> set (content (?loop [pElement ''My Title'', imgElement ?a, imgElement ?b,
        h2Element ''Introduction'']))"
    then have "foundFirstContent (?loop [pElement ''My Title'', imgElement ?a])
        \<or> headerImageCount (?loop [pElement ''My Title'', imgElement ?a]) = 0"
      by (rule dropped [OF conjI, OF tb q1, THEN iffD1])
    with st1(2,3) show False by simp
  qed
  from imgs have l: "list_all (\<lambda>e. tagName e = IMG \<and> imageQualifies {} (src e))
      [imgElement ?a, imgElement ?b, imgElement ?c]"
    unfolding list_all_iff .
  from dist have dist': "distinct (map src [imgElement ?a, imgElement ?b, imgElement ?c])" .
  from l dist' a x b tb q2 st2(2) c q1 st1(2,3) d show ?thesis
    by (intro conjI) assumption+
qed

text \<open>
  The claim C5 as it is stated fails in three ways. First, a seventh short line is
  accepted as text without setting \<open>foundFirstContent\<close>: of two qualifying images after
  it the second is dropped, although text has been accepted before both and the image is
  not the last item. Second, a \<open>div\<close> that wraps block elements and has a long text sets
  the flag without being accepted: the image after it is returned in addition to the
  first one, although no text has been accepted before either. Third, the last item
  collected is not returned: with a heading after the first image, the third image is
  collected and lost; and of two images after a seventh short line and before any longer
  text, the first is collected and lost, so that none is returned.
\<close>

theorem pre_content_image_cap_counterexample:
  "classifyContent ''Real Author'' ''@real'' ''My Title''
     (map pElement [''line 1'', ''line 2'', ''line 3'', ''line 4'', ''line 5'', ''line 6'']
      @ [pElement ''a seventh short line'',
         imgElement ''https://pbs.twimg.com/media/a.jpg'',
         imgElement ''https://pbs.twimg.com/media/b.jpg'',
         pElement ''This paragraph is long enough to start the content.'',
         pElement ''The closing paragraph of the article, long enough.''])
     = [Item Text ''a seventh short line'',
        Item Image ''https://pbs.twimg.com/media/a.jpg'',
        Item Text ''This paragraph is long enough to start the content.'']
   \<and> classifyContent ''Real Author'' ''@real'' ''My Title''
        [imgElement ''https://pbs.twimg.com/media/a.jpg'',
         imgElement ''https://pbs.twimg.com/media/b.jpg'',
         wrapperDiv ''This paragraph is long enough to start the content.'',
         imgElement ''https://pbs.twimg.com/media/c.jpg'',
         pElement ''The closing paragraph of the article, long enough.'']
     = [Item Image ''https://pbs.twimg.com/media/a.jpg'',
        Item Image ''https://pbs.twimg.com/media/c.jpg'']
   \<and> classifyContent ''Real Author'' ''@real'' ''My Title''
        [imgElement ''https://pbs.twimg.com/media/a.jpg'',
         h2Element ''Introduction'',
         imgElement ''https://pbs.twimg.com/media/b.jpg'',
         imgElement ''https://pbs.twimg.com/media/c.jpg'']
     = [Item Image ''https://pbs.twimg.com/media/a.jpg'',
        Item Text ''## Introduction'',
        Item Image ''https://pbs.twimg.com/media/b.jpg'']
   \<and> classifyContent ''Real Author'' ''@real'' ''My Title''
        (map pElement [''line 1'', ''line 2'', ''line 3'', ''line 4'', ''line 5'', ''line 6'']
         @ [pElement ''a seventh short line'',
            imgElement ''https://pbs.twimg.com/media/a.jpg'',
            imgElement ''https://pbs.twimg.com/media/b.jpg''])
     = [Item Text ''a seventh short line'']"
  by (simp add: classifyContent_def removeLastLine_def filterContent_def filterItem_def
      rawTextOf_def isCallToAction_def initialState_def eval_text handleImage_def
      imageQualifies_def)

section \<open>The trailing drop in the pipeline\<close>

lemma length_filterFrom: "length (filterFrom found items) \<le> length items"
  by (induction items arbitrary: found) (auto split: prod.splits intro: le_SucI)

text \<open>
  C7. The content returned for a container is the filter's result on the sequence that
  the loop has collected, after the trailing drop. When the loop has collected more than
  one item, exactly the last one is removed, whatever it is, and the filter sees the
  others only; a sequence of one item, or the empty one, goes to the filter as it is. So
  two collected items become the first of them, and a single item stays.
\<close>

theorem trailing_drop:
  "classifyContent name handle ttl els
     = filterContent (removeLastLine (content (scrapeLoop name handle ttl initialState els)))
   \<and> (length (content (scrapeLoop name handle ttl initialState els)) > 1 \<longrightarrow>
        classifyContent name handle ttl els
          = filterContent (butlast (content (scrapeLoop name handle ttl initialState els)))
        \<and> length (classifyContent name handle ttl els)
            < length (content (scrapeLoop name handle ttl initialState els)))
   \<and> (length (content (scrapeLoop name handle ttl initialState els)) \<le> 1 \<longrightarrow>
        classifyContent name handle ttl els
          = filterContent (content (scrapeLoop name handle ttl initialState els)))
   \<and> (length items > 1 \<longrightarrow>
        removeLastLine items = butlast items
        \<and> length (removeLastLine items) = length items - 1
        \<and> items = removeLastLine items @ [last items])
   \<and> (length items \<le> 1 \<longrightarrow> removeLastLine items = items)
   \<and> removeLastLine [x, y] = [x]
   \<and> removeLastLine [x] = [x]"
proof -
  let ?c = "content (scrapeLoop name handle ttl initialState els)"
  have pipeline: "classifyContent name handle ttl els = filterContent (removeLastLine ?c)"
    by (simp add: classifyContent_def)
  have more: "classifyContent name handle ttl els = filterContent (butlast ?c)
      \<and> length (classifyContent name handle ttl els) < length ?c"
    if "length ?c > 1"
  proof -
    from that have eq: "classifyContent name handle ttl els = filterContent (butlast ?c)"
      by (simp add: classifyContent_def removeLastLine_def)
    have "length (filterContent (butlast ?c)) \<le> length (butlast ?c)"
      unfolding filterContent_def by (rule length_filterFrom)
    with that eq show ?thesis by simp
  qed
  have one: "classifyContent name handle ttl els = filterContent ?c" if "length ?c \<le> 1"
    using that by (simp add: classifyContent_def removeLastLine_def)
  have split: "items = butlast items @ [last items]" if "length items > 1"
    using that by (cases items) auto
  have drop: "removeLastLine items = butlast items
        \<and> length (removeLastLine items) = length items - 1
        \<and> items = removeLastLine items @ [last items]"
    if "length items > 1"
    using that split by (simp add: removeLastLine_def)
  have keep: "removeLastLine items = items" if "length items \<le> 1"
    using that by (simp add: removeLastLine_def)
  have two: "removeLastLine [x, y] = [x]" "removeLastLine [x] = [x]"
    by (simp_all add: removeLastLine_def)
  from pipeline more one drop keep two show ?thesis by blast
qed

theorem trailing_drop_witness:
  "content (scrapeLoop ''Real Author'' ''@real'' ''My Title'' initialState
      [pElement ''This paragraph is long enough to start the content.'',
       pElement ''A second paragraph, which the trailing drop removes.''])
     = [Item Text ''This paragraph is long enough to start the content.'',
        Item Text ''A second paragraph, which the trailing drop removes.'']
   \<and> classifyContent ''Real Author'' ''@real'' ''My Title''
        [pElement ''This paragraph is long enough to start the content.'',
         pElement ''A second paragraph, which the trailing drop removes.'']
      = [Item Text ''This paragraph is long enough to start the content.'']
   \<and> content (scrapeLoop ''Real Author'' ''@real'' ''My Title'' initialState
      [pElement ''This paragraph is long enough to start the content.''])
     = [Item Text ''This paragraph is long enough to start the content.'']
   \<and> classifyContent ''Real Author'' ''@real'' ''My Title''
        [pElement ''This paragraph is long enough to start the content.'']
      = [Item Text ''This paragraph is long enough to start the content.'']
   \<and> removeLastLine [Item Text ''a'', Item Image ''b'', Item Text ''c'']
       = [Item Text ''a'', Item Image ''b'']
   \<and> removeLastLine [] = []"
proof -
  let ?one = "[pElement ''This paragraph is long enough to start the content.'']"
  let ?two = "[pElement ''This paragraph is long enough to start the content.'',
       pElement ''A second paragraph, which the trailing drop removes.'']"
  let ?loop = "scrapeLoop ''Real Author'' ''@real'' ''My Title'' initialState"
  have c2: "content (?loop ?two)
      = [Item Text ''This paragraph is long enough to start the content.'',
         Item Text ''A second paragraph, which the trailing drop removes.'']"
    by (simp add: initialState_def eval_text)
  have c1: "content (?loop ?one)
      = [Item Text ''This paragraph is long enough to start the content.'']"
    by (simp add: initialState_def eval_text)
  have f: "filterContent [Item Text ''This paragraph is long enough to start the content.'']
      = [Item Text ''This paragraph is long enough to start the content.'']"
    by (simp add: filterContent_def filterItem_def rawTextOf_def isCallToAction_def
        startsWith_def canonicalize_Char)
  from c2 have "length (content (?loop ?two)) > 1" by simp
  with trailing_drop [of "''Real Author''" "''@real''" "''My Title''" ?two]
  have "classifyContent ''Real Author'' ''@real'' ''My Title'' ?two
      = filterContent (butlast (content (?loop ?two)))"
    by blast
  then have r2: "classifyContent ''Real Author'' ''@real'' ''My Title'' ?two
      = [Item Text ''This paragraph is long enough to start the content.'']"
    unfolding c2 by (simp add: f)
  from c1 have "length (content (?loop ?one)) \<le> 1" by simp
  with trailing_drop [of "''Real Author''" "''@real''" "''My Title''" ?one]
  have "classifyContent ''Real Author'' ''@real'' ''My Title'' ?one
      = filterContent (content (?loop ?one))"
    by blast
  then have r1: "classifyContent ''Real Author'' ''@real'' ''My Title'' ?one
      = [Item Text ''This paragraph is long enough to start the content.'']"
    unfolding c1 by (simp add: f)
  have "length [Item Text ''a'', Item Image ''b'', Item Text ''c''] > 1" by simp
  with trailing_drop [of _ _ _ _ "[Item Text ''a'', Item Image ''b'', Item Text ''c'']"]
  have r3: "removeLastLine [Item Text ''a'', Item Image ''b'', Item Text ''c'']
      = butlast [Item Text ''a'', Item Image ''b'', Item Text ''c'']"
    by blast
  have "length ([] :: item list) \<le> 1" by simp
  with trailing_drop [of _ _ _ _ "[]"]
  have r4: "removeLastLine [] = []"
    by blast
  from r3 have r3': "removeLastLine [Item Text ''a'', Item Image ''b'', Item Text ''c'']
      = [Item Text ''a'', Item Image ''b'']"
    by simp
  from c2 r2 c1 r1 r3' r4 show ?thesis by blast
qed

section \<open>The extraction never raises, and its caller\<close>

text \<open>The reads of \<open>el.textContent\<close> in the title loop stand under the test of \<open>el\<close>.\<close>

lemma titleLoop_returns:
  "titleLoop sels =
     Inr (case find (\<lambda>el. case el of None \<Rightarrow> False | Some tc \<Rightarrow> trim tc \<noteq> []) sels of
            Some (Some tc) \<Rightarrow> trim tc
          | _ \<Rightarrow> [])"
proof (induction sels)
  case Nil
  show ?case by simp
next
  case (Cons el sels)
  then show ?case by (cases el) (simp_all add: textContentOf_def)
qed

lemma find_blank:
  "(find (\<lambda>el. case el of None \<Rightarrow> False | Some tc \<Rightarrow> trim tc \<noteq> []) sels = None)
     = list_all (\<lambda>el. case el of None \<Rightarrow> True | Some tc \<Rightarrow> trim tc = []) sels"
  by (induction sels) (auto split: option.splits)

lemma title_empty:
  "((case find (\<lambda>el. case el of None \<Rightarrow> False | Some tc \<Rightarrow> trim tc \<noteq> []) sels of
       Some (Some tc) \<Rightarrow> trim tc
     | _ \<Rightarrow> []) = [])
     = list_all (\<lambda>el. case el of None \<Rightarrow> True | Some tc \<Rightarrow> trim tc = []) sels"
proof (cases "find (\<lambda>el. case el of None \<Rightarrow> False | Some tc \<Rightarrow> trim tc \<noteq> []) sels")
  case None
  with find_blank [of sels] show ?thesis by simp
next
  case (Some el)
  then have "(case el of None \<Rightarrow> False | Some tc \<Rightarrow> trim tc \<noteq> [])"
    by (auto simp: find_Some_iff)
  with Some find_blank [of sels] show ?thesis by (cases el) auto
qed

text \<open>
  C9. The extraction raises no error: for every page it returns its data, the title
  empty exactly when no title selector finds an element with text, and the content that
  of the container (empty when there is none). The caller never answers from its
  \<open>catch\<close>: its only error is the JSON error of status 400 with the fixed message, which
  carries nothing of the extraction, and it gives it exactly when the title and the
  content are both empty; otherwise the data goes on to be rendered.
\<close>

theorem extraction_empty_failure:
  "(\<exists>articleData.
      scrapeArticle pg = Inr articleData
      \<and> authorName articleData = fst (authorLoop ([], []) (userLinks pg))
      \<and> authorHandle articleData = snd (authorLoop ([], []) (userLinks pg))
      \<and> (title articleData = []) = list_all (\<lambda>el. case el of None \<Rightarrow> True | Some tc \<Rightarrow> trim tc = []) (titleElements pg)
      \<and> articleContent articleData =
          (case containerElements pg of
             None \<Rightarrow> []
           | Some allElements \<Rightarrow>
               classifyContent (authorName articleData) (authorHandle articleData)
                 (title articleData) allElements)
      \<and> postArticle pg =
          (if title articleData = [] \<and> articleContent articleData = []
           then JsonError 400 ''Could not extract article content. The article may be private or deleted.''
           else RenderArticle articleData))
   \<and> (\<forall>status msg. postArticle pg = JsonError status msg \<longrightarrow>
         status = 400 \<and> msg = ''Could not extract article content. The article may be private or deleted.'')
   \<and> (postArticle pg = JsonError 400 ''Could not extract article content. The article may be private or deleted.'')
      = (list_all (\<lambda>el. case el of None \<Rightarrow> True | Some tc \<Rightarrow> trim tc = []) (titleElements pg)
         \<and> (case containerElements pg of
               None \<Rightarrow> True
             | Some allElements \<Rightarrow>
                 classifyContent (fst (authorLoop ([], []) (userLinks pg)))
                   (snd (authorLoop ([], []) (userLinks pg))) [] allElements = []))"
proof -
  let ?ttl = "case find (\<lambda>el. case el of None \<Rightarrow> False | Some tc \<Rightarrow> trim tc \<noteq> [])
                    (titleElements pg) of
               Some (Some tc) \<Rightarrow> trim tc
             | _ \<Rightarrow> []"
  let ?name = "fst (authorLoop ([], []) (userLinks pg))"
  let ?handle = "snd (authorLoop ([], []) (userLinks pg))"
  let ?content = "case containerElements pg of
               None \<Rightarrow> []
             | Some allElements \<Rightarrow> classifyContent ?name ?handle ?ttl allElements"
  let ?d = "\<lparr>title = ?ttl, authorName = ?name, authorHandle = ?handle,
             articleContent = ?content\<rparr>"
  have ret: "scrapeArticle pg = Inr ?d"
    by (cases "authorLoop ([], []) (userLinks pg)"; cases "containerElements pg")
      (simp_all add: scrapeArticle_def titleLoop_returns querySelectorAllOf_def)
  have blank: "(?ttl = []) = list_all (\<lambda>el. case el of None \<Rightarrow> True | Some tc \<Rightarrow> trim tc = []) (titleElements pg)"
    by (rule title_empty)
  have post: "postArticle pg =
      (if ?ttl = [] \<and> ?content = []
       then JsonError 400 ''Could not extract article content. The article may be private or deleted.''
       else RenderArticle ?d)"
    by (simp add: postArticle_def ret respondArticle_def)
  have first: "\<exists>articleData.
      scrapeArticle pg = Inr articleData
      \<and> authorName articleData = ?name
      \<and> authorHandle articleData = ?handle
      \<and> (title articleData = []) = list_all (\<lambda>el. case el of None \<Rightarrow> True | Some tc \<Rightarrow> trim tc = []) (titleElements pg)
      \<and> articleContent articleData =
          (case containerElements pg of
             None \<Rightarrow> []
           | Some allElements \<Rightarrow>
               classifyContent (authorName articleData) (authorHandle articleData)
                 (title articleData) allElements)
      \<and> postArticle pg =
          (if title articleData = [] \<and> articleContent articleData = []
           then JsonError 400 ''Could not extract article content. The article may be private or deleted.''
           else RenderArticle articleData)"
  proof (intro exI conjI)
    show "scrapeArticle pg = Inr ?d" by (rule ret)
    show "authorName ?d = ?name" by simp
    show "authorHandle ?d = ?handle" by simp
    show "(title ?d = []) = list_all (\<lambda>el. case el of None \<Rightarrow> True | Some tc \<Rightarrow> trim tc = []) (titleElements pg)"
      using blank by simp
    show "articleContent ?d =
          (case containerElements pg of
             None \<Rightarrow> []
           | Some allElements \<Rightarrow>
               classifyContent (authorName ?d) (authorHandle ?d) (title ?d) allElements)"
      by (cases "containerElements pg") simp_all
    show "postArticle pg =
          (if title ?d = [] \<and> articleContent ?d = []
           then JsonError 400 ''Could not extract article content. The article may be private or deleted.''
           else RenderArticle ?d)"
      using post by simp
  qed
  have only: "status = 400 \<and> msg = ''Could not extract article content. The article may be private or deleted.''"
    if "postArticle pg = JsonError status msg" for status msg
    using that by (simp add: post split: if_splits)
  have "(postArticle pg = JsonError 400 ''Could not extract article content. The article may be private or deleted.'') = (?ttl = [] \<and> ?content = [])"
    by (simp add: post)
  also have "\<dots> = (list_all (\<lambda>el. case el of None \<Rightarrow> True | Some tc \<Rightarrow> trim tc = []) (titleElements pg)
         \<and> (case containerElements pg of
               None \<Rightarrow> True
             | Some allElements \<Rightarrow> classifyContent ?name ?handle [] allElements = []))"
    using blank by (cases "containerElements pg") auto
  finally have exactly: "(postArticle pg = JsonError 400 ''Could not extract article content. The article may be private or deleted.'')
      = (list_all (\<lambda>el. case el of None \<Rightarrow> True | Some tc \<Rightarrow> trim tc = []) (titleElements pg)
         \<and> (case containerElements pg of
               None \<Rightarrow> True
             | Some allElements \<Rightarrow> classifyContent ?name ?handle [] allElements = []))" .
  from first only exactly show ?thesis by blast
qed

theorem extraction_empty_failure_witness:
  "list_all (\<lambda>el. case el of None \<Rightarrow> True | Some tc \<Rightarrow> trim tc = [])
     [None, Some ''  '', None, None]
   \<and> classifyContent [] [] [] [pElement ''Log in'', pElement ''tiny text''] = []
   \<and> postArticle
       \<lparr>userLinks = [],
        titleElements = [None, Some ''  '', None, None],
        containerElements = Some [pElement ''Log in'', pElement ''tiny text'']\<rparr>
      = JsonError 400 ''Could not extract article content. The article may be private or deleted.''
   \<and> postArticle
       \<lparr>userLinks =
          [\<lparr>href = ''https://x.com/alice'', linkTextContent = ''@alice''\<rparr>,
           \<lparr>href = ''https://x.com/alice'', linkTextContent = ''Alice''\<rparr>],
        titleElements = [None, None, None, None],
        containerElements =
          Some [pElement ''This paragraph is long enough to start the content.'',
                pElement ''A second paragraph, which the trailing drop removes.'']\<rparr>
      = RenderArticle
          \<lparr>title = [], authorName = ''Alice'', authorHandle = ''@alice'',
           articleContent = [Item Text ''This paragraph is long enough to start the content.'']\<rparr>
   \<and> scrapeArticle
       \<lparr>userLinks =
          [\<lparr>href = ''https://x.com/alice'', linkTextContent = ''@alice''\<rparr>,
           \<lparr>href = ''https://x.com/alice'', linkTextContent = ''Alice''\<rparr>],
        titleElements = [None, None, None, None],
        containerElements =
          Some [pElement ''This paragraph is long enough to start the content.'',
                pElement ''A second paragraph, which the trailing drop removes.'']\<rparr>
      = Inr \<lparr>title = [], authorName = ''Alice'', authorHandle = ''@alice'',
           articleContent = [Item Text ''This paragraph is long enough to start the content.'']\<rparr>"
proof -
  let ?a = "\<lparr>userLinks = [],
        titleElements = [None, Some ''  '', None, None],
        containerElements = Some [pElement ''Log in'', pElement ''tiny text'']\<rparr>"
  let ?b = "\<lparr>userLinks =
          [\<lparr>href = ''https://x.com/alice'', linkTextContent = ''@alice''\<rparr>,
           \<lparr>href = ''https://x.com/alice'', linkTextContent = ''Alice''\<rparr>],
        titleElements = [None, None, None, None],
        containerElements =
          Some [pElement ''This paragraph is long enough to start the content.'',
                pElement ''A second paragraph, which the trailing drop removes.'']\<rparr>"
  have blank: "list_all (\<lambda>el. case el of None \<Rightarrow> True | Some tc \<Rightarrow> trim tc = [])
      [None, Some ''  '', None, None]"
    by (simp add: trim_def isWhiteSpace_def)
  have none: "classifyContent [] [] [] [pElement ''Log in'', pElement ''tiny text''] = []"
    by (simp add: classifyContent_def initialState_def eval_text removeLastLine_def
        filterContent_def)
  have author_a: "authorLoop ([], []) (userLinks ?a) = ([], [])"
    by simp
  have "list_all (\<lambda>el. case el of None \<Rightarrow> True | Some tc \<Rightarrow> trim tc = []) (titleElements ?a)
      \<and> (case containerElements ?a of
            None \<Rightarrow> True
          | Some allElements \<Rightarrow>
              classifyContent (fst (authorLoop ([], []) (userLinks ?a)))
                (snd (authorLoop ([], []) (userLinks ?a))) [] allElements = [])"
    using blank none by (simp add: author_a)
  with extraction_empty_failure [of ?a, THEN conjunct2, THEN conjunct2]
  have failed: "postArticle ?a = JsonError 400 ''Could not extract article content. The article may be private or deleted.''"
    by (rule iffD2)
  have author_b: "authorLoop ([], []) (userLinks ?b) = (''Alice'', ''@alice'')"
    by (simp add: isProfileHref_def isWordChar_def trim_def isWhiteSpace_def startsWith_def)
  have some: "classifyContent ''Alice'' ''@alice'' []
        [pElement ''This paragraph is long enough to start the content.'',
         pElement ''A second paragraph, which the trailing drop removes.'']
      = [Item Text ''This paragraph is long enough to start the content.'']"
    by (simp add: classifyContent_def initialState_def eval_text removeLastLine_def
        filterContent_def filterItem_def rawTextOf_def isCallToAction_def)
  from extraction_empty_failure [of ?b, THEN conjunct1]
  obtain d where d: "scrapeArticle ?b = Inr d"
    "authorName d = fst (authorLoop ([], []) (userLinks ?b))"
    "authorHandle d = snd (authorLoop ([], []) (userLinks ?b))"
    "(title d = []) = list_all (\<lambda>el. case el of None \<Rightarrow> True | Some tc \<Rightarrow> trim tc = []) (titleElements ?b)"
    "articleContent d =
       (case containerElements ?b of
          None \<Rightarrow> []
        | Some allElements \<Rightarrow>
            classifyContent (authorName d) (authorHandle d) (title d) allElements)"
    "postArticle ?b =
       (if title d = [] \<and> articleContent d = []
        then JsonError 400 ''Could not extract article content. The article may be private or deleted.''
        else RenderArticle d)"
    by (elim exE conjE)
  from d(4) have t: "title d = []" by simp
  from d(2,3) [unfolded author_b]
  have a: "authorName d = ''Alice''" "authorHandle d = ''@alice''"
    by simp_all
  from d(5) have c: "articleContent d = [Item Text ''This paragraph is long enough to start the content.'']"
    by (simp add: t a some)
  from t a c have "d = \<lparr>title = [], authorName = ''Alice'', authorHandle = ''@alice'',
           articleContent = [Item Text ''This paragraph is long enough to start the content.'']\<rparr>"
    by (cases d) simp
  with d(6) t c have rendered: "postArticle ?b
      = RenderArticle
          \<lparr>title = [], authorName = ''Alice'', authorHandle = ''@alice'',
           articleContent = [Item Text ''This paragraph is long enough to start the content.'']\<rparr>"
    by simp
  have run: "scrapeArticle ?b
      = Inr \<lparr>title = [], authorName = ''Alice'', authorHandle = ''@alice'',
           articleContent = [Item Text ''This paragraph is long enough to start the content.'']\<rparr>"
    using author_b by (simp add: scrapeArticle_def querySelectorAllOf_def some)
  from blank none failed rendered run show ?thesis by blast
qed

end
